theory Spec2Isabelle
  imports Complex_Main "HOL-Library.Multiset"
begin

section \<open>JavaScript numbers\<close>

text \<open>
  The program of \<^verbatim>\<open>src/App.jsx\<close> computes with JavaScript numbers. A number is modelled
  with the special values of IEEE 754 written out: \<open>NaN\<close>, the two infinities and the two
  zeros (\<open>Fin 0\<close> is \<open>+0\<close>, \<open>NZero\<close> is \<open>-0\<close>); every other number is \<open>Fin r\<close> for a
  real \<open>r \<noteq> 0\<close>.

  The arithmetic comes in two layers. The operators \<open>js_add\<close>, \<open>js_mul\<close> and \<open>js_div\<close> and
  the functions \<open>Math_sin\<close>, \<open>Math_cos\<close>, \<open>Math_asin\<close>, \<open>Math_atan2\<close> and \<open>Math_sqrt\<close> of
  this section follow the rules of the language for the special values and compute a
  finite result as the exact real, without rounding, overflow or underflow. The section
  on binary64 arithmetic below adds the rounding of every result to the nearest binary64
  number; the operators defined there are the ones the program runs. Unary \<^verbatim>\<open>-\<close>, \<^verbatim>\<open>%\<close>,
  the comparisons, \<^verbatim>\<open>Math.max\<close>, \<^verbatim>\<open>Math.min\<close> and \<^verbatim>\<open>Math.round\<close> round nothing and
  are shared by the two layers.
\<close>

datatype jsnum = NaN | PInf | NInf | NZero | Fin real

fun isNaN :: "jsnum \<Rightarrow> bool" where
  "isNaN NaN = True"
| "isNaN _ = False"

fun isInf :: "jsnum \<Rightarrow> bool" where
  "isInf PInf = True"
| "isInf NInf = True"
| "isInf _ = False"

text \<open>\<^verbatim>\<open>Number.isFinite(x)\<close> for a number \<open>x\<close>.\<close>

fun Number_isFinite :: "jsnum \<Rightarrow> bool" where
  "Number_isFinite NZero = True"
| "Number_isFinite (Fin r) = True"
| "Number_isFinite _ = False"

text \<open>The real value of a finite number (both zeros have value 0).\<close>

fun val :: "jsnum \<Rightarrow> real" where
  "val (Fin r) = r"
| "val _ = 0"

fun isZero :: "jsnum \<Rightarrow> bool" where
  "isZero NZero = True"
| "isZero (Fin r) = (r = 0)"
| "isZero _ = False"

text \<open>The sign bit.\<close>

fun negative :: "jsnum \<Rightarrow> bool" where
  "negative NInf = True"
| "negative NZero = True"
| "negative (Fin r) = (r < 0)"
| "negative _ = False"

definition zero_of :: "bool \<Rightarrow> jsnum" where
  "zero_of neg = (if neg then NZero else Fin 0)"

definition inf_of :: "bool \<Rightarrow> jsnum" where
  "inf_of neg = (if neg then NInf else PInf)"

text \<open>The finite number of value \<open>r\<close>; \<open>neg\<close> is the sign it takes when \<open>r = 0\<close>.\<close>

definition finite_of :: "bool \<Rightarrow> real \<Rightarrow> jsnum" where
  "finite_of neg r = (if r = 0 then zero_of neg else Fin r)"

text \<open>Truthiness of a number: \<open>NaN\<close>, \<open>+0\<close> and \<open>-0\<close> are falsy.\<close>

definition truthy :: "jsnum \<Rightarrow> bool" where
  "truthy x = (\<not> isNaN x \<and> \<not> isZero x)"

text \<open>The operators \<^verbatim>\<open>+\<close>, unary \<^verbatim>\<open>-\<close>, \<^verbatim>\<open>-\<close>, \<^verbatim>\<open>*\<close>, \<^verbatim>\<open>/\<close> and \<^verbatim>\<open>%\<close> on numbers.\<close>

definition js_add :: "jsnum \<Rightarrow> jsnum \<Rightarrow> jsnum" where
  "js_add x y =
     (if isNaN x \<or> isNaN y then NaN
      else if x = PInf then (if y = NInf then NaN else PInf)
      else if x = NInf then (if y = PInf then NaN else NInf)
      else if isInf y then y
      else finite_of (x = NZero \<and> y = NZero) (val x + val y))"

fun js_neg :: "jsnum \<Rightarrow> jsnum" where
  "js_neg NaN = NaN"
| "js_neg PInf = NInf"
| "js_neg NInf = PInf"
| "js_neg NZero = Fin 0"
| "js_neg (Fin r) = (if r = 0 then NZero else Fin (- r))"

definition js_sub :: "jsnum \<Rightarrow> jsnum \<Rightarrow> jsnum" where
  "js_sub x y = js_add x (js_neg y)"

definition js_mul :: "jsnum \<Rightarrow> jsnum \<Rightarrow> jsnum" where
  "js_mul x y =
     (if isNaN x \<or> isNaN y then NaN
      else if (isInf x \<and> isZero y) \<or> (isZero x \<and> isInf y) then NaN
      else if isInf x \<or> isInf y then inf_of (negative x \<noteq> negative y)
      else finite_of (negative x \<noteq> negative y) (val x * val y))"

definition js_div :: "jsnum \<Rightarrow> jsnum \<Rightarrow> jsnum" where
  "js_div x y =
     (if isNaN x \<or> isNaN y then NaN
      else if isInf x then (if isInf y then NaN else inf_of (negative x \<noteq> negative y))
      else if isInf y then zero_of (negative x \<noteq> negative y)
      else if isZero y then (if isZero x then NaN else inf_of (negative x \<noteq> negative y))
      else finite_of (negative x \<noteq> negative y) (val x / val y))"

text \<open>Rounding towards zero, the integer quotient of \<^verbatim>\<open>%\<close>.\<close>

definition trunc :: "real \<Rightarrow> int" where
  "trunc q = (if 0 \<le> q then \<lfloor>q\<rfloor> else \<lceil>q\<rceil>)"

definition js_rem :: "jsnum \<Rightarrow> jsnum \<Rightarrow> jsnum" where
  "js_rem n d =
     (if isNaN n \<or> isNaN d \<or> isInf n \<or> isZero d then NaN
      else if isInf d \<or> isZero n then n
      else finite_of (negative n) (val n - val d * of_int (trunc (val n / val d))))"

text \<open>The comparison \<^verbatim>\<open><\<close> and \<^verbatim>\<open><=\<close>: false as soon as one side is \<open>NaN\<close>.\<close>

definition js_lt :: "jsnum \<Rightarrow> jsnum \<Rightarrow> bool" where
  "js_lt x y =
     (\<not> isNaN x \<and> \<not> isNaN y \<and>
      ((x = NInf \<and> y \<noteq> NInf) \<or> (y = PInf \<and> x \<noteq> PInf) \<or>
       (Number_isFinite x \<and> Number_isFinite y \<and> val x < val y)))"

definition js_le :: "jsnum \<Rightarrow> jsnum \<Rightarrow> bool" where
  "js_le x y =
     (\<not> isNaN x \<and> \<not> isNaN y \<and>
      (x = NInf \<or> y = PInf \<or> (Number_isFinite x \<and> Number_isFinite y \<and> val x \<le> val y)))"

subsection \<open>The functions of \<^verbatim>\<open>Math\<close>\<close>

text \<open>\<^verbatim>\<open>Math.max\<close> and \<^verbatim>\<open>Math.min\<close> of two numbers: \<open>NaN\<close> wins, and \<open>+0\<close> is larger than \<open>-0\<close>.\<close>

definition Math_max :: "jsnum \<Rightarrow> jsnum \<Rightarrow> jsnum" where
  "Math_max x y =
     (if isNaN x \<or> isNaN y then NaN
      else if isZero x \<and> isZero y then zero_of (negative x \<and> negative y)
      else if js_lt x y then y else x)"

definition Math_min :: "jsnum \<Rightarrow> jsnum \<Rightarrow> jsnum" where
  "Math_min x y =
     (if isNaN x \<or> isNaN y then NaN
      else if isZero x \<and> isZero y then zero_of (negative x \<or> negative y)
      else if js_lt y x then y else x)"

fun Math_sqrt :: "jsnum \<Rightarrow> jsnum" where
  "Math_sqrt NaN = NaN"
| "Math_sqrt PInf = PInf"
| "Math_sqrt NInf = NaN"
| "Math_sqrt NZero = NZero"
| "Math_sqrt (Fin r) = (if r < 0 then NaN else Fin (sqrt r))"



fun Math_asin :: "jsnum \<Rightarrow> jsnum" where
  "Math_asin NZero = NZero"
| "Math_asin (Fin r) = (if r < - 1 \<or> 1 < r then NaN else Fin (arcsin r))"
| "Math_asin _ = NaN"

text \<open>
  The angle of the point \<open>(x, y)\<close>, in \<open>(-\<pi>, \<pi>]\<close>, for \<open>x\<close> and \<open>y\<close> not both zero.
\<close>

definition atan2 :: "real \<Rightarrow> real \<Rightarrow> real" where
  "atan2 y x =
     (if 0 < x then arctan (y / x)
      else if x < 0 then (if 0 \<le> y then arctan (y / x) + pi else arctan (y / x) - pi)
      else if 0 < y then pi / 2
      else if y < 0 then - (pi / 2)
      else 0)"

text \<open>
  \<^verbatim>\<open>Math.atan2(y, x)\<close>. A zero \<open>y\<close> gives a zero or \<open>\<plusminus>\<pi>\<close> according to the sign bit of
  \<open>x\<close>, and the result takes the sign of \<open>y\<close>: \<^verbatim>\<open>Math.atan2(0, -0)\<close> is \<open>\<pi>\<close>.
\<close>

definition Math_atan2 :: "jsnum \<Rightarrow> jsnum \<Rightarrow> jsnum" where
  "Math_atan2 y x =
     (if isNaN y \<or> isNaN x then NaN
      else if isZero y then
        (if negative x then Fin (if negative y then - pi else pi)
         else zero_of (negative y))
      else if isInf y then
        (if x = PInf then Fin (if negative y then - (pi / 4) else pi / 4)
         else if x = NInf then Fin (if negative y then - (3 * pi / 4) else 3 * pi / 4)
         else Fin (if negative y then - (pi / 2) else pi / 2))
      else if x = PInf then zero_of (negative y)
      else if x = NInf then Fin (if negative y then - pi else pi)
      else Fin (atan2 (val y) (val x)))"

text \<open>
  \<^verbatim>\<open>Math.round\<close>: the nearest integer, a tie going up; a result of zero keeps the sign of
  the argument.
\<close>

fun Math_round :: "jsnum \<Rightarrow> jsnum" where
  "Math_round (Fin r) = finite_of (r < 0) (of_int \<lfloor>r + 1 / 2\<rfloor>)"
| "Math_round x = x"

definition Math_PI :: jsnum where
  "Math_PI = Fin pi"

section \<open>Binary64 arithmetic\<close>

text \<open>
  The nearest integer to a real, a tie going to the even neighbour.
\<close>

definition rne :: "real \<Rightarrow> int" where
  "rne y =
     (let n = \<lfloor>y\<rfloor>; f = y - of_int n
      in if f < 1 / 2 then n else if 1 / 2 < f then n + 1 else if even n then n else n + 1)"

text \<open>
  The binary64 numbers are the multiples \<open>m * 2 ^ q\<close> with \<open>\<bar>m\<bar> < 2 ^ 53\<close>,
  \<open>- 1074 \<le> q\<close> and \<open>\<bar>m * 2 ^ q\<bar> < 2 ^ 1024\<close>. \<open>quantum a\<close> is the exponent of the spacing
  of these numbers around \<open>a > 0\<close>: 52 below the binary exponent of \<open>a\<close>, and \<open>- 1074\<close> in
  the subnormal range. \<open>nearest a\<close> is the multiple of that spacing nearest to \<open>a\<close>.
\<close>

definition quantum :: "real \<Rightarrow> int" where
  "quantum a = max \<lfloor>log 2 a\<rfloor> (- 1022) - 52"

definition nearest :: "real \<Rightarrow> real" where
  "nearest a = of_int (rne (a / 2 powi quantum a)) * 2 powi quantum a"

text \<open>
  Rounding a real to binary64, to nearest and ties to even: a magnitude that rounds to
  \<open>2 ^ 1024\<close> overflows to an infinity, and a nonzero real that rounds to zero keeps its
  sign.
\<close>

definition round64 :: "real \<Rightarrow> jsnum" where
  "round64 x =
     (if x = 0 then Fin 0
      else
        let m = nearest \<bar>x\<bar>
        in if 2 ^ 1024 \<le> m then inf_of (x < 0)
           else finite_of (x < 0) (if x < 0 then - m else m))"

text \<open>A real is a binary64 number when rounding leaves it as it is.\<close>

definition is_double :: "real \<Rightarrow> bool" where
  "is_double x = (round64 x = Fin x)"

text \<open>
  The operators \<^verbatim>\<open>+\<close>, \<^verbatim>\<open>-\<close>, \<^verbatim>\<open>*\<close> and \<^verbatim>\<open>/\<close> of the program: the rules of the exact
  operators for the special values and for the sign of a zero, and the exact result
  rounded otherwise. A remainder \<^verbatim>\<open>%\<close> of two binary64 numbers is a binary64 number, so
  \<open>js_rem\<close> serves as it is.
\<close>

definition add64 :: "jsnum \<Rightarrow> jsnum \<Rightarrow> jsnum" where
  "add64 x y =
     (if isNaN x \<or> isNaN y then NaN
      else if x = PInf then (if y = NInf then NaN else PInf)
      else if x = NInf then (if y = PInf then NaN else NInf)
      else if isInf y then y
      else if val x + val y = 0 then zero_of (x = NZero \<and> y = NZero)
      else round64 (val x + val y))"

definition sub64 :: "jsnum \<Rightarrow> jsnum \<Rightarrow> jsnum" where
  "sub64 x y = add64 x (js_neg y)"

definition mul64 :: "jsnum \<Rightarrow> jsnum \<Rightarrow> jsnum" where
  "mul64 x y =
     (if isNaN x \<or> isNaN y then NaN
      else if (isInf x \<and> isZero y) \<or> (isZero x \<and> isInf y) then NaN
      else if isInf x \<or> isInf y then inf_of (negative x \<noteq> negative y)
      else if val x * val y = 0 then zero_of (negative x \<noteq> negative y)
      else round64 (val x * val y))"

definition div64 :: "jsnum \<Rightarrow> jsnum \<Rightarrow> jsnum" where
  "div64 x y =
     (if isNaN x \<or> isNaN y then NaN
      else if isInf x then (if isInf y then NaN else inf_of (negative x \<noteq> negative y))
      else if isInf y then zero_of (negative x \<noteq> negative y)
      else if isZero y then (if isZero x then NaN else inf_of (negative x \<noteq> negative y))
      else if val x = 0 then zero_of (negative x \<noteq> negative y)
      else round64 (val x / val y))"

text \<open>
  \<^verbatim>\<open>Math.sqrt\<close> is correctly rounded. The language leaves the precision of \<^verbatim>\<open>Math.sin\<close>,
  \<^verbatim>\<open>Math.cos\<close>, \<^verbatim>\<open>Math.asin\<close> and \<^verbatim>\<open>Math.atan2\<close> to the engine; they are modelled as the
  real functions rounded to the nearest binary64 number. \<^verbatim>\<open>Math.PI\<close> is the binary64
  number nearest to \<open>\<pi>\<close>.
\<close>

fun sqrt64 :: "jsnum \<Rightarrow> jsnum" where
  "sqrt64 NaN = NaN"
| "sqrt64 PInf = PInf"
| "sqrt64 NInf = NaN"
| "sqrt64 NZero = NZero"
| "sqrt64 (Fin r) = (if r < 0 then NaN else round64 (sqrt r))"

fun sin64 :: "jsnum \<Rightarrow> jsnum" where
  "sin64 NZero = NZero"
| "sin64 (Fin r) = round64 (sin r)"
| "sin64 _ = NaN"

fun cos64 :: "jsnum \<Rightarrow> jsnum" where
  "cos64 NZero = Fin 1"
| "cos64 (Fin r) = round64 (cos r)"
| "cos64 _ = NaN"

fun asin64 :: "jsnum \<Rightarrow> jsnum" where
  "asin64 NZero = NZero"
| "asin64 (Fin r) = (if r < - 1 \<or> 1 < r then NaN else round64 (arcsin r))"
| "asin64 _ = NaN"

definition PI64 :: jsnum where
  "PI64 = round64 pi"

definition atan2_64 :: "jsnum \<Rightarrow> jsnum \<Rightarrow> jsnum" where
  "atan2_64 y x =
     (if isNaN y \<or> isNaN x then NaN
      else if isZero y then
        (if negative x then round64 (if negative y then - pi else pi)
         else zero_of (negative y))
      else if isInf y then
        (if x = PInf then round64 (if negative y then - (pi / 4) else pi / 4)
         else if x = NInf then round64 (if negative y then - (3 * pi / 4) else 3 * pi / 4)
         else round64 (if negative y then - (pi / 2) else pi / 2))
      else if x = PInf then zero_of (negative y)
      else if x = NInf then round64 (if negative y then - pi else pi)
      else round64 (atan2 (val y) (val x)))"

section \<open>Marker size scale\<close>

text \<open>
  \<^verbatim>\<open>
  function radiusFor(areaHa, maxArea) {
    if (!maxArea || !Number.isFinite(areaHa)) return 6;
    const t = Math.max(0, Math.min(1, Math.sqrt(areaHa / maxArea)));
    return 6 + t * 16; // 6..22 px
  }
  \<close>
\<close>

definition radiusFor :: "jsnum \<Rightarrow> jsnum \<Rightarrow> jsnum" where
  "radiusFor areaHa maxArea =
     (if \<not> truthy maxArea \<or> \<not> Number_isFinite areaHa then Fin 6
      else
        let t = Math_max (Fin 0) (Math_min (Fin 1) (sqrt64 (div64 areaHa maxArea)))
        in add64 (Fin 6) (mul64 t (Fin 16)))"

section \<open>Strings and property lookup\<close>

text \<open>
  A string is its sequence of UTF-16 code units. \<open>asc\<close> writes an ASCII literal.
\<close>

type_synonym jsstr = "nat list"

abbreviation asc :: "string \<Rightarrow> jsstr" where
  "asc s \<equiv> map of_char s"

text \<open>
  The tables of the program are object literals, so a lookup \<^verbatim>\<open>T[k]\<close> or a test
  \<^verbatim>\<open>k in T\<close> that misses the table's own keys goes on to \<^verbatim>\<open>Object.prototype\<close>. These
  are the property names found there; each holds a function or an object, never a number
  or a string.
\<close>

definition Object_prototype_keys :: "jsstr list" where
  "Object_prototype_keys =
     [asc ''constructor'', asc ''hasOwnProperty'', asc ''isPrototypeOf'',
      asc ''propertyIsEnumerable'', asc ''toLocaleString'', asc ''toString'',
      asc ''valueOf'', asc ''__proto__'', asc ''__defineGetter__'',
      asc ''__defineSetter__'', asc ''__lookupGetter__'', asc ''__lookupSetter__'']"

section \<open>Wind heading\<close>

text \<open>
  \<^verbatim>\<open>
  const WAF = { grass: 0.7, shrub: 0.5, forest: 0.3 };
  const mod360 = d => ((d % 360) + 360) % 360;
  const toRad = d => d * Math.PI / 180;
  const toDeg = r => r * 180 / Math.PI;
  \<close>
\<close>

definition WAF :: "(jsstr \<times> real) list" where
  "WAF = [(asc ''grass'', 0.7), (asc ''shrub'', 0.5), (asc ''forest'', 0.3)]"



definition toRad :: "jsnum \<Rightarrow> jsnum" where
  "toRad d = js_div (js_mul d Math_PI) (Fin 180)"

definition toDeg :: "jsnum \<Rightarrow> jsnum" where
  "toDeg r = js_div (js_mul r (Fin 180)) Math_PI"

text \<open>
  \<^verbatim>\<open>
  function compassFromDeg(deg) {
    const dirs = ["N", "NNE", "NE", "ENE", "E", "ESE", "SE", "SSE", "S", "SSW", "SW", "WSW", "W", "WNW", "NW", "NNW"];
    return dirs[Math.round(mod360(deg) / 22.5) % 16];
  }
  \<close>
  Reading an array at a number gives the element when the number is an integer index of
  the array (\<open>-0\<close> is the index 0) and \<^verbatim>\<open>undefined\<close>, here \<open>None\<close>, otherwise.
\<close>

definition array_get :: "'a list \<Rightarrow> jsnum \<Rightarrow> 'a option" where
  "array_get xs i =
     (if Number_isFinite i \<and> of_int \<lfloor>val i\<rfloor> = val i \<and> 0 \<le> val i \<and> val i < real (length xs)
      then Some (xs ! nat \<lfloor>val i\<rfloor>) else None)"

definition dirs :: "jsstr list" where
  "dirs = [asc ''N'', asc ''NNE'', asc ''NE'', asc ''ENE'', asc ''E'', asc ''ESE'',
           asc ''SE'', asc ''SSE'', asc ''S'', asc ''SSW'', asc ''SW'', asc ''WSW'',
           asc ''W'', asc ''WNW'', asc ''NW'', asc ''NNW'']"



text \<open>
  \<^verbatim>\<open>
  function predictHeading(speedKmh, dirFromDeg, env, slopePct, slopeDirTo) {
    const headingTo = mod360(dirFromDeg + 180);
    const speedMs = speedKmh / 3.6;
    const waf = WAF[env] ?? 0.7;
    let u = waf * speedMs * Math.cos(toRad(headingTo)); // east
    let v = waf * speedMs * Math.sin(toRad(headingTo)); // north
    if (Number.isFinite(slopePct) && Number.isFinite(slopeDirTo)) {
      const push = 0.02 * (slopePct / 10);
      u += push * Math.cos(toRad(slopeDirTo));
      v += push * Math.sin(toRad(slopeDirTo));
    }
    const heading = mod360(toDeg(Math.atan2(v, u)));
    return { headingDeg: heading, compass: compassFromDeg(heading) };
  }
  \<close>
  The function is cut at its three stages: the wind vector \<open>(u, v)\<close>, the vector after the
  optional slope push, and the heading read from it.
\<close>

record heading_result =
  headingDeg :: jsnum
  compass :: "jsstr option"




text \<open>
  The definitions above compute with the exact operators. The same functions with the
  operators of the program, every result rounded to binary64, follow; the literals
  \<^verbatim>\<open>0.7\<close>, \<^verbatim>\<open>0.3\<close>, \<^verbatim>\<open>3.6\<close> and \<^verbatim>\<open>0.02\<close> are not binary64 numbers and stand for their
  roundings (\<^verbatim>\<open>0.5\<close>, \<^verbatim>\<open>22.5\<close> and the whole numbers are exact).
\<close>

definition waf64 :: "jsstr \<Rightarrow> jsnum" where
  "waf64 env =
     (case map_of WAF env of
        Some w \<Rightarrow> round64 w
      | None \<Rightarrow> if env \<in> set Object_prototype_keys then NaN else round64 0.7)"

definition mod360_64 :: "jsnum \<Rightarrow> jsnum" where
  "mod360_64 d = js_rem (add64 (js_rem d (Fin 360)) (Fin 360)) (Fin 360)"

definition toRad64 :: "jsnum \<Rightarrow> jsnum" where
  "toRad64 d = div64 (mul64 d PI64) (Fin 180)"

definition toDeg64 :: "jsnum \<Rightarrow> jsnum" where
  "toDeg64 r = div64 (mul64 r (Fin 180)) PI64"

definition compass_index64 :: "jsnum \<Rightarrow> jsnum" where
  "compass_index64 deg = js_rem (Math_round (div64 (mod360_64 deg) (Fin 22.5))) (Fin 16)"

definition compassFromDeg64 :: "jsnum \<Rightarrow> jsstr option" where
  "compassFromDeg64 deg = array_get dirs (compass_index64 deg)"

definition windVector64 :: "jsnum \<Rightarrow> jsnum \<Rightarrow> jsstr \<Rightarrow> jsnum \<times> jsnum" where
  "windVector64 speedKmh dirFromDeg env =
     (let headingTo = mod360_64 (add64 dirFromDeg (Fin 180));
          speedMs = div64 speedKmh (round64 3.6);
          waf = waf64 env
      in (mul64 (mul64 waf speedMs) (cos64 (toRad64 headingTo)),
          mul64 (mul64 waf speedMs) (sin64 (toRad64 headingTo))))"

definition slopePush64 :: "jsnum \<times> jsnum \<Rightarrow> jsnum \<Rightarrow> jsnum \<Rightarrow> jsnum \<times> jsnum" where
  "slopePush64 uv slopePct slopeDirTo =
     (if Number_isFinite slopePct \<and> Number_isFinite slopeDirTo then
        let push = mul64 (round64 0.02) (div64 slopePct (Fin 10))
        in (add64 (fst uv) (mul64 push (cos64 (toRad64 slopeDirTo))),
            add64 (snd uv) (mul64 push (sin64 (toRad64 slopeDirTo))))
      else uv)"

definition predictHeading64 ::
    "jsnum \<Rightarrow> jsnum \<Rightarrow> jsstr \<Rightarrow> jsnum \<Rightarrow> jsnum \<Rightarrow> heading_result" where
  "predictHeading64 speedKmh dirFromDeg env slopePct slopeDirTo =
     (let uv = slopePush64 (windVector64 speedKmh dirFromDeg env) slopePct slopeDirTo;
          heading = mod360_64 (toDeg64 (atan2_64 (snd uv) (fst uv)))
      in \<lparr>headingDeg = heading, compass = compassFromDeg64 heading\<rparr>)"

section \<open>Destination point\<close>

text \<open>
  \<^verbatim>\<open>
  function destPoint(lat, lon, bearingDeg, distanceKm) {
    const R = 6371;
    const brng = toRad(bearingDeg);
    const phi1 = toRad(lat), lam1 = toRad(lon);
    const dR = distanceKm / R;
    const phi2 = Math.asin(Math.sin(phi1) * Math.cos(dR) + Math.cos(phi1) * Math.sin(dR) * Math.cos(brng));
    const lam2 = lam1 + Math.atan2(Math.sin(brng) * Math.sin(dR) * Math.cos(phi1), Math.cos(dR) - Math.sin(phi1) * Math.sin(phi2));
    return [phi2 * 180 / Math.PI, ((lam2 * 180 / Math.PI + 540) % 360) - 180];
  }
  \<close>
  (the source names the four angles with Greek letters).
\<close>

definition destPoint :: "jsnum \<Rightarrow> jsnum \<Rightarrow> jsnum \<Rightarrow> jsnum \<Rightarrow> jsnum \<times> jsnum" where
  "destPoint lat lon bearingDeg distanceKm =
     (let R = Fin 6371;
          brng = toRad64 bearingDeg;
          phi1 = toRad64 lat;
          lam1 = toRad64 lon;
          dR = div64 distanceKm R;
          phi2 = asin64 (add64 (mul64 (sin64 phi1) (cos64 dR))
                   (mul64 (mul64 (cos64 phi1) (sin64 dR)) (cos64 brng)));
          lam2 = add64 lam1
                   (atan2_64 (mul64 (mul64 (sin64 brng) (sin64 dR)) (cos64 phi1))
                      (sub64 (cos64 dR) (mul64 (sin64 phi1) (sin64 phi2))))
      in (div64 (mul64 phi2 (Fin 180)) PI64,
          sub64 (js_rem (add64 (div64 (mul64 lam2 (Fin 180)) PI64) (Fin 540)) (Fin 360))
            (Fin 180)))"

section \<open>Numeric coercion\<close>

text \<open>
  The values the coercion can meet: a cell of the table is a string or \<^verbatim>\<open>undefined\<close>, a
  field of a parsed row is a number.
\<close>

datatype jsval = Undefined | Null | JBool bool | JNum jsnum | JStr jsstr

text \<open>
  The characters that \<^verbatim>\<open>Number\<close> and \<^verbatim>\<open>String.prototype.trim\<close> strip from both ends:
  white space and line terminators.
\<close>

definition is_ws :: "nat \<Rightarrow> bool" where
  "is_ws c = (c \<in> set [0x09, 0x0A, 0x0B, 0x0C, 0x0D, 0x20, 0xA0, 0x1680, 0x2028, 0x2029,
                         0x202F, 0x205F, 0x3000, 0xFEFF]
              \<or> (0x2000 \<le> c \<and> c \<le> 0x200A))"

definition trim :: "jsstr \<Rightarrow> jsstr" where
  "trim s = rev (dropWhile is_ws (rev (dropWhile is_ws s)))"

definition is_digit :: "nat \<Rightarrow> bool" where
  "is_digit c = (48 \<le> c \<and> c \<le> 57)"

text \<open>The digits \<open>0-9\<close>, \<open>a-z\<close> and \<open>A-Z\<close> as numbers; 36 for any other character.\<close>

definition digit_of :: "nat \<Rightarrow> nat" where
  "digit_of c =
     (if 48 \<le> c \<and> c \<le> 57 then c - 48
      else if 97 \<le> c \<and> c \<le> 122 then c - 87
      else if 65 \<le> c \<and> c \<le> 90 then c - 55
      else 36)"

definition digits_value :: "nat \<Rightarrow> jsstr \<Rightarrow> nat" where
  "digits_value base ds = foldl (\<lambda>a c. base * a + digit_of c) 0 ds"

text \<open>
  \<open>ExponentPart\<close>, optional: nothing, or \<open>e\<close> or \<open>E\<close>, an optional sign and at least one
  digit. The result is the exponent.
\<close>

definition signed_integer :: "jsstr \<Rightarrow> int option" where
  "signed_integer s =
     (let neg = (case s of [] \<Rightarrow> False | c # _ \<Rightarrow> c = 45);
          ds = (case s of [] \<Rightarrow> [] | c # r \<Rightarrow> if c = 43 \<or> c = 45 then r else s)
      in if ds \<noteq> [] \<and> list_all is_digit ds
         then Some (if neg then - int (digits_value 10 ds) else int (digits_value 10 ds))
         else None)"

definition exponent_part :: "jsstr \<Rightarrow> int option" where
  "exponent_part s =
     (case s of [] \<Rightarrow> Some 0
      | c # r \<Rightarrow> if c = 101 \<or> c = 69 then signed_integer r else None)"

text \<open>
  \<open>StrUnsignedDecimalLiteral\<close> other than \<open>Infinity\<close>: digits, an optional point with
  digits, an optional exponent, with a digit before or after the point. The result is
  the mathematical value of the literal, an exact real that is not negative;
  \<open>literal_value\<close> below rounds it to a number.
\<close>

definition unsigned_decimal :: "jsstr \<Rightarrow> real option" where
  "unsigned_decimal s =
     (let ip = takeWhile is_digit s;
          r1 = dropWhile is_digit s;
          point = (case r1 of [] \<Rightarrow> False | c # _ \<Rightarrow> c = 46);
          fp = (if point then takeWhile is_digit (tl r1) else []);
          r2 = (if point then dropWhile is_digit (tl r1) else r1)
      in if ip = [] \<and> fp = [] then None
         else case exponent_part r2 of
                None \<Rightarrow> None
              | Some e \<Rightarrow>
                  let m = real (digits_value 10 ip) + real (digits_value 10 fp) / 10 ^ length fp
                  in Some (if 0 \<le> e then m * 10 ^ nat e else m / 10 ^ nat (- e)))"

text \<open>
  The number denoted by a literal of mathematical value \<open>m \<ge> 0\<close> under the sign \<open>neg\<close>:
  the value rounded to binary64, so that a long literal loses digits and a large one is
  an infinity (\<^verbatim>\<open>Number("1e400")\<close> is \<^verbatim>\<open>Infinity\<close>).
\<close>

definition literal_value :: "bool \<Rightarrow> real \<Rightarrow> jsnum" where
  "literal_value neg m = (if m = 0 then zero_of neg else round64 (if neg then - m else m))"

text \<open>\<open>StrDecimalLiteral\<close>: an optional sign, then \<open>Infinity\<close> or an unsigned literal.\<close>

definition decimal_literal :: "jsstr \<Rightarrow> jsnum option" where
  "decimal_literal s =
     (let neg = (case s of [] \<Rightarrow> False | c # _ \<Rightarrow> c = 45);
          body = (case s of [] \<Rightarrow> [] | c # r \<Rightarrow> if c = 43 \<or> c = 45 then r else s)
      in if body = asc ''Infinity'' then Some (inf_of neg)
         else case unsigned_decimal body of
                None \<Rightarrow> None
              | Some m \<Rightarrow> Some (literal_value neg m))"

text \<open>
  \<open>NonDecimalIntegerLiteral\<close>: \<open>0x\<close>, \<open>0o\<close> or \<open>0b\<close> (in either case) and at least one
  digit of that base; no sign.
\<close>

definition radix_literal :: "jsstr \<Rightarrow> jsnum option" where
  "radix_literal s =
     (case s of
        z # p # ds \<Rightarrow>
          (let base = (if p = 120 \<or> p = 88 then 16 else if p = 111 \<or> p = 79 then 8
                       else if p = 98 \<or> p = 66 then 2 else 0)
           in if z = 48 \<and> base \<noteq> 0 \<and> ds \<noteq> [] \<and> list_all (\<lambda>c. digit_of c < base) ds
              then Some (literal_value False (real (digits_value base ds))) else None)
      | _ \<Rightarrow> None)"

text \<open>
  \<^verbatim>\<open>Number(s)\<close> for a string \<open>s\<close>: the empty string and white space are \<open>+0\<close>, a numeric
  literal is its value rounded to binary64, anything else is \<open>NaN\<close>.
\<close>

definition StringToNumber :: "jsstr \<Rightarrow> jsnum" where
  "StringToNumber s =
     (let t = trim s
      in if t = [] then Fin 0
         else case radix_literal t of
                Some n \<Rightarrow> n
              | None \<Rightarrow> (case decimal_literal t of Some n \<Rightarrow> n | None \<Rightarrow> NaN))"

text \<open>\<^verbatim>\<open>.replace(/[, ]+/g, "")\<close>: every comma and every space is removed.\<close>

definition strip_separators :: "jsstr \<Rightarrow> jsstr" where
  "strip_separators s = filter (\<lambda>c. c \<noteq> 44 \<and> c \<noteq> 32) s"

text \<open>
  \<^verbatim>\<open>
  const toNum = (v) => {
    const n = Number(String(v ?? "").replace(/[, ]+/g, ""));
    return Number.isFinite(n) ? n : NaN;
  };
  \<close>
  \<open>coerce_text\<close> is the function from the text \<^verbatim>\<open>String(v ?? "")\<close> on. The text of
  \<^verbatim>\<open>undefined\<close> and of \<^verbatim>\<open>null\<close> is empty, by \<^verbatim>\<open>??\<close>. For a number \<open>v\<close>,
  \<^verbatim>\<open>String(v)\<close> is the decimal text that \<^verbatim>\<open>Number\<close> reads back as \<open>v\<close>; it holds no comma
  and no space, and the one number it does not give back is \<open>-0\<close>, whose text is
  \<^verbatim>\<open>"0"\<close>. The last equation is that round trip.
\<close>

definition number_or_NaN :: "jsnum \<Rightarrow> jsnum" where
  "number_or_NaN n = (if Number_isFinite n then n else NaN)"

definition coerce_text :: "jsstr \<Rightarrow> jsnum" where
  "coerce_text s = number_or_NaN (StringToNumber (strip_separators s))"

fun toNum :: "jsval \<Rightarrow> jsnum" where
  "toNum Undefined = coerce_text []"
| "toNum Null = coerce_text []"
| "toNum (JBool b) = coerce_text (if b then asc ''true'' else asc ''false'')"
| "toNum (JStr s) = coerce_text s"
| "toNum (JNum n) = number_or_NaN (if n = NZero then Fin 0 else n)"

section \<open>Totals per province\<close>

text \<open>
  \<^verbatim>\<open>
  const CENTROIDS = { AB: [53.9333, -116.5765], BC: [53.7267, -127.6476], ... };
  function aggregateByProvince(rows) {
    const totals = {};
    for (const r of rows) {
      if (!r.region || !(r.region in CENTROIDS)) continue;
      const val = toNum(r.area_ha);
      if (!Number.isFinite(val)) continue;
      totals[r.region] = (totals[r.region] || 0) + val;
    }
    return totals;
  }
  \<close>
\<close>

definition CENTROIDS :: "(jsstr \<times> real \<times> real) list" where
  "CENTROIDS =
     [(asc ''AB'', 53.9333, - 116.5765), (asc ''BC'', 53.7267, - 127.6476),
      (asc ''MB'', 53.7609, - 98.8139), (asc ''NB'', 46.5653, - 66.4619),
      (asc ''NL'', 53.1355, - 57.6604), (asc ''NS'', 44.682, - 63.7443),
      (asc ''NT'', 64.8255, - 124.8457), (asc ''NU'', 70.2998, - 83.1076),
      (asc ''ON'', 51.2538, - 85.3232), (asc ''PE'', 46.5107, - 63.4168),
      (asc ''QC'', 52.9399, - 73.5491), (asc ''SK'', 52.9399, - 106.4509),
      (asc ''YT'', 64.2823, - 135)]"

text \<open>The thirteen region codes, the own keys of \<open>CENTROIDS\<close>.\<close>

definition region_codes :: "jsstr list" where
  "region_codes = map fst CENTROIDS"

text \<open>\<^verbatim>\<open>k in CENTROIDS\<close>: an own key, or a property inherited from \<^verbatim>\<open>Object.prototype\<close>.\<close>

definition in_CENTROIDS :: "jsstr \<Rightarrow> bool" where
  "in_CENTROIDS k = (k \<in> set region_codes \<or> k \<in> set Object_prototype_keys)"

text \<open>
  A row as \<open>parseCSV\<close> builds it; \<open>None\<close> is a region that is \<^verbatim>\<open>null\<close> or \<^verbatim>\<open>undefined\<close>.
\<close>

record row =
  region :: "jsstr option"
  area_ha :: jsval
  year :: jsval

text \<open>
  A total is a number. Under a key inherited from \<^verbatim>\<open>Object.prototype\<close> the sum
  \<^verbatim>\<open>(totals[k] || 0) + val\<close> starts from a function and is a string, \<open>TText\<close>, and stays
  one.
\<close>

datatype total = TNum jsnum | TText

text \<open>
  \<open>totals\<close> is the list of its own properties in insertion order. An assignment
  replaces the value of a key that is there and appends a new key.
\<close>

fun assign :: "jsstr \<Rightarrow> total \<Rightarrow> (jsstr \<times> total) list \<Rightarrow> (jsstr \<times> total) list" where
  "assign k v [] = [(k, v)]"
| "assign k v ((k', v') # ps) = (if k = k' then (k, v) # ps else (k', v') # assign k v ps)"

text \<open>
  \<^verbatim>\<open>(t || 0) + v\<close> for a running total \<open>t\<close> that is a number: a total that is falsy, a
  zero or \<open>NaN\<close>, counts as \<open>+0\<close>, and the sum is rounded.
\<close>

definition accumulate :: "jsnum \<Rightarrow> jsnum \<Rightarrow> jsnum" where
  "accumulate t v = add64 (if truthy t then t else Fin 0) v"

text \<open>
  One turn of the loop. Assigning a string to \<^verbatim>\<open>__proto__\<close> changes nothing.
\<close>

definition aggregate_row :: "(jsstr \<times> total) list \<Rightarrow> row \<Rightarrow> (jsstr \<times> total) list" where
  "aggregate_row totals r =
     (case region r of
        None \<Rightarrow> totals
      | Some k \<Rightarrow>
          if k = [] \<or> \<not> in_CENTROIDS k then totals
          else
            let v = toNum (area_ha r)
            in if \<not> Number_isFinite v then totals
               else case map_of totals k of
                      Some (TNum t) \<Rightarrow> assign k (TNum (accumulate t v)) totals
                    | Some TText \<Rightarrow> assign k TText totals
                    | None \<Rightarrow>
                        if k \<in> set Object_prototype_keys
                        then (if k = asc ''__proto__'' then totals else assign k TText totals)
                        else assign k (TNum (add64 (Fin 0) v)) totals)"

definition aggregateByProvince :: "row list \<Rightarrow> (jsstr \<times> total) list" where
  "aggregateByProvince rows = foldl aggregate_row [] rows"

text \<open>
  The grand total that \<open>App\<close> computes from the totals:
  \<^verbatim>\<open>Object.values(totals).reduce((a, b) => a + b, 0)\<close>.
\<close>

fun add_total :: "total \<Rightarrow> total \<Rightarrow> total" where
  "add_total (TNum a) (TNum b) = TNum (add64 a b)"
| "add_total _ _ = TText"

definition grand_total :: "(jsstr \<times> total) list \<Rightarrow> total" where
  "grand_total totals = foldl add_total (TNum (Fin 0)) (map snd totals)"

text \<open>
  A row takes part in the sums when its region is one of the thirteen codes and its area
  is finite.
\<close>

definition included :: "row \<Rightarrow> bool" where
  "included r =
     ((case region r of None \<Rightarrow> False | Some k \<Rightarrow> k \<in> set region_codes)
      \<and> Number_isFinite (toNum (area_ha r)))"

text \<open>
  The areas of the rows of region \<open>k\<close> that take part, in the order of the rows, and the
  total that the loop builds from a list of areas: the sum from left to right, each
  addition rounded.
\<close>

definition region_areas :: "jsstr \<Rightarrow> row list \<Rightarrow> jsnum list" where
  "region_areas k rows =
     map (\<lambda>r. toNum (area_ha r)) (filter (\<lambda>r. included r \<and> region r = Some k) rows)"

definition running_total :: "jsnum list \<Rightarrow> jsnum" where
  "running_total vs = foldl accumulate (Fin 0) vs"

text \<open>The arithmetic sum of the areas of the rows of region \<open>k\<close> that take part.\<close>

definition area_sum :: "jsstr \<Rightarrow> row list \<Rightarrow> real" where
  "area_sum k rows =
     sum_list (map (\<lambda>r. val (toNum (area_ha r))) (filter (\<lambda>r. included r \<and> region r = Some k) rows))"

text \<open>
  \<open>parseCSV\<close> ends every region with \<^verbatim>\<open>toUpperCase\<close>, and every property name of
  \<^verbatim>\<open>Object.prototype\<close> holds a lower-case letter, so none of them is the region of a
  parsed row.
\<close>

definition parsed_regions :: "row list \<Rightarrow> bool" where
  "parsed_regions rows = list_all (\<lambda>r. case region r of None \<Rightarrow> True
                                       | Some k \<Rightarrow> k \<notin> set Object_prototype_keys) rows"

section \<open>Region names\<close>

text \<open>
  \<^verbatim>\<open>
  const NAME_TO_CODE = { "alberta": "AB", "british columbia": "BC", ... , "pei": "PE" };
  const normName = (s) =>
    String(s ?? "").normalize("NFD").replace(/\p{Diacritic}/gu, "").toLowerCase().trim();
  \<close>
\<close>

definition NAME_TO_CODE :: "(jsstr \<times> jsstr) list" where
  "NAME_TO_CODE =
     [(asc ''alberta'', asc ''AB''),
      (asc ''british columbia'', asc ''BC''),
      (asc ''manitoba'', asc ''MB''),
      (asc ''new brunswick'', asc ''NB''),
      (asc ''newfoundland and labrador'', asc ''NL''),
      (asc ''newfoundland & labrador'', asc ''NL''),
      (asc ''nova scotia'', asc ''NS''),
      (asc ''northwest territories'', asc ''NT''),
      (asc ''nunavut'', asc ''NU''),
      (asc ''ontario'', asc ''ON''),
      (asc ''prince edward island'', asc ''PE''),
      (asc ''quebec'', asc ''QC''),
      (asc ''saskatchewan'', asc ''SK''),
      (asc ''yukon'', asc ''YT''),
      (asc ''pei'', asc ''PE'')]"

text \<open>
  The Unicode tables behind \<^verbatim>\<open>normalize\<close>, \<^verbatim>\<open>\p{Diacritic}\<close>, \<^verbatim>\<open>toLowerCase\<close> and
  \<^verbatim>\<open>toUpperCase\<close> belong to the JavaScript engine, not to the program. They are modelled
  on Basic Latin, the Latin-1 Supplement and the combining marks \<open>U+0300\<close> to \<open>U+034E\<close>;
  a code unit outside this range is left as it is, and the reordering of combining marks
  by \<open>NFD\<close> is left out (all the marks of the range are removed by the next step).

  The canonical decompositions of the Latin-1 letters: the letter, its base letter and
  its combining mark. Four combining marks decompose as well.
\<close>

definition latin1_decompositions :: "(nat \<times> nat \<times> nat) list" where
  "latin1_decompositions =
     [(0xC0, 0x41, 0x300), (0xC1, 0x41, 0x301), (0xC2, 0x41, 0x302), (0xC3, 0x41, 0x303),
      (0xC4, 0x41, 0x308), (0xC5, 0x41, 0x30A), (0xC7, 0x43, 0x327), (0xC8, 0x45, 0x300),
      (0xC9, 0x45, 0x301), (0xCA, 0x45, 0x302), (0xCB, 0x45, 0x308), (0xCC, 0x49, 0x300),
      (0xCD, 0x49, 0x301), (0xCE, 0x49, 0x302), (0xCF, 0x49, 0x308), (0xD1, 0x4E, 0x303),
      (0xD2, 0x4F, 0x300), (0xD3, 0x4F, 0x301), (0xD4, 0x4F, 0x302), (0xD5, 0x4F, 0x303),
      (0xD6, 0x4F, 0x308), (0xD9, 0x55, 0x300), (0xDA, 0x55, 0x301), (0xDB, 0x55, 0x302),
      (0xDC, 0x55, 0x308), (0xDD, 0x59, 0x301),
      (0xE0, 0x61, 0x300), (0xE1, 0x61, 0x301), (0xE2, 0x61, 0x302), (0xE3, 0x61, 0x303),
      (0xE4, 0x61, 0x308), (0xE5, 0x61, 0x30A), (0xE7, 0x63, 0x327), (0xE8, 0x65, 0x300),
      (0xE9, 0x65, 0x301), (0xEA, 0x65, 0x302), (0xEB, 0x65, 0x308), (0xEC, 0x69, 0x300),
      (0xED, 0x69, 0x301), (0xEE, 0x69, 0x302), (0xEF, 0x69, 0x308), (0xF1, 0x6E, 0x303),
      (0xF2, 0x6F, 0x300), (0xF3, 0x6F, 0x301), (0xF4, 0x6F, 0x302), (0xF5, 0x6F, 0x303),
      (0xF6, 0x6F, 0x308), (0xF9, 0x75, 0x300), (0xFA, 0x75, 0x301), (0xFB, 0x75, 0x302),
      (0xFC, 0x75, 0x308), (0xFD, 0x79, 0x301), (0xFF, 0x79, 0x308)]"

definition decompose :: "nat \<Rightarrow> nat list" where
  "decompose c =
     (case map_of latin1_decompositions c of
        Some (b, m) \<Rightarrow> [b, m]
      | None \<Rightarrow>
          if c = 0x340 then [0x300] else if c = 0x341 then [0x301]
          else if c = 0x343 then [0x313] else if c = 0x344 then [0x308, 0x301]
          else [c])"

definition normalize_NFD :: "jsstr \<Rightarrow> jsstr" where
  "normalize_NFD s = concat (map decompose s)"

definition is_diacritic :: "nat \<Rightarrow> bool" where
  "is_diacritic c = (c \<in> set [0x5E, 0x60, 0xA8, 0xAF, 0xB4, 0xB7, 0xB8]
                     \<or> (0x300 \<le> c \<and> c \<le> 0x34E))"

definition lower_unit :: "nat \<Rightarrow> nat" where
  "lower_unit c =
     (if (65 \<le> c \<and> c \<le> 90) \<or> (0xC0 \<le> c \<and> c \<le> 0xDE \<and> c \<noteq> 0xD7) then c + 32 else c)"

definition toLowerCase :: "jsstr \<Rightarrow> jsstr" where
  "toLowerCase s = map lower_unit s"

definition upper_unit :: "nat \<Rightarrow> nat list" where
  "upper_unit c =
     (if (97 \<le> c \<and> c \<le> 122) \<or> (0xE0 \<le> c \<and> c \<le> 0xFE \<and> c \<noteq> 0xF7) then [c - 32]
      else if c = 0xDF then [0x53, 0x53]
      else if c = 0xB5 then [0x39C]
      else if c = 0xFF then [0x178]
      else if c = 0x345 then [0x399]
      else [c])"

definition toUpperCase :: "jsstr \<Rightarrow> jsstr" where
  "toUpperCase s = concat (map upper_unit s)"

definition normName :: "jsstr \<Rightarrow> jsstr" where
  "normName s = trim (toLowerCase (filter (\<lambda>c. \<not> is_diacritic c) (normalize_NFD s)))"

text \<open>
  The region of a row, in \<open>parseCSV\<close>:
  \<^verbatim>\<open>
    let region = String(regionRaw || "").trim();
    if (region.length > 2) {
      const code = NAME_TO_CODE[normName(region)];
      if (code) region = code;
    }
    region = region.toUpperCase();
  \<close>
  \<open>regionRaw\<close> is a cell of the row, a string or \<^verbatim>\<open>undefined\<close> (\<open>None\<close>). A normalised
  name that is a property name of \<^verbatim>\<open>Object.prototype\<close> finds a function or an object
  there, which is truthy and becomes the region; it has no \<^verbatim>\<open>toUpperCase\<close>, and the call
  throws a \<^verbatim>\<open>TypeError\<close>.
\<close>

datatype js_error = TypeError

definition resolveRegion :: "jsstr option \<Rightarrow> js_error + jsstr" where
  "resolveRegion regionRaw =
     (let region = trim (case regionRaw of None \<Rightarrow> [] | Some s \<Rightarrow> s)
      in if length region > 2 then
           (case map_of NAME_TO_CODE (normName region) of
              Some code \<Rightarrow> Inr (toUpperCase code)
            | None \<Rightarrow>
                if normName region \<in> set Object_prototype_keys then Inl TypeError
                else Inr (toUpperCase region))
         else Inr (toUpperCase region))"

section \<open>Auxiliary notions for the statements\<close>


text \<open>
  The value of a total, the sum of the values of the totals, and the arithmetic sum of
  the areas of all the rows that take part.
\<close>

definition total_val :: "total \<Rightarrow> real" where
  "total_val t = (case t of TNum x \<Rightarrow> val x | TText \<Rightarrow> 0)"

definition total_area :: "row list \<Rightarrow> real" where
  "total_area rows = sum_list (map (\<lambda>r. val (toNum (area_ha r))) (filter included rows))"

definition values_sum :: "(jsstr \<times> total) list \<Rightarrow> real" where
  "values_sum acc = sum_list (map (\<lambda>p. total_val (snd p)) acc)"

text \<open>
  Sums of whole numbers that stay within \<open>2 ^ 53\<close> in absolute value are exact in
  binary64. \<open>whole_areas\<close> says that every area that takes part is a whole number,
  \<open>abs_area\<close> is the sum of their absolute values. For the running totals, \<open>whole_total\<close>
  is a total that is a whole number, written \<open>Fin\<close>, and \<open>abs_sum\<close> the sum of the
  absolute values of the totals.
\<close>

definition is_whole :: "real \<Rightarrow> bool" where
  "is_whole x = (of_int \<lfloor>x\<rfloor> = x)"

definition whole_areas :: "row list \<Rightarrow> bool" where
  "whole_areas rows = list_all (\<lambda>r. included r \<longrightarrow> is_whole (val (toNum (area_ha r)))) rows"

definition abs_area :: "row list \<Rightarrow> real" where
  "abs_area rows = sum_list (map (\<lambda>r. \<bar>val (toNum (area_ha r))\<bar>) (filter included rows))"

fun whole_total :: "total \<Rightarrow> bool" where
  "whole_total (TNum (Fin x)) = is_whole x"
| "whole_total _ = False"

definition numeric :: "(jsstr \<times> total) list \<Rightarrow> bool" where
  "numeric acc = list_all (\<lambda>p. whole_total (snd p)) acc"

definition abs_sum :: "(jsstr \<times> total) list \<Rightarrow> real" where
  "abs_sum acc = sum_list (map (\<lambda>p. \<bar>total_val (snd p)\<bar>) acc)"

section \<open>Properties of the number model\<close>

lemma finite_of_False [simp]: "finite_of False r = Fin r"
  by (simp add: finite_of_def zero_of_def)

lemma finite_of_nz [simp]: "r \<noteq> 0 \<Longrightarrow> finite_of b r = Fin r"
  by (simp add: finite_of_def)

lemma finite_of_fin [simp]: "Number_isFinite (finite_of b r)" "val (finite_of b r) = r"
  "\<not> isNaN (finite_of b r)" "\<not> isInf (finite_of b r)"
  by (simp_all add: finite_of_def zero_of_def)

lemma zero_of_fin [simp]: "Number_isFinite (zero_of b)" "val (zero_of b) = 0"
  "\<not> isNaN (zero_of b)" "\<not> isInf (zero_of b)" "isZero (zero_of b)" "negative (zero_of b) = b"
  by (simp_all add: zero_of_def)

lemma isFinite_iff: "Number_isFinite x \<longleftrightarrow> \<not> isNaN x \<and> \<not> isInf x"
  by (cases x) simp_all

lemma isZero_val: "Number_isFinite x \<Longrightarrow> isZero x \<longleftrightarrow> val x = 0"
  by (cases x) simp_all

lemma fin_add: "Number_isFinite x \<Longrightarrow> Number_isFinite y \<Longrightarrow>
    Number_isFinite (js_add x y) \<and> val (js_add x y) = val x + val y"
  by (cases x; cases y) (simp_all add: js_add_def)

lemma fin_neg: "Number_isFinite x \<Longrightarrow> Number_isFinite (js_neg x) \<and> val (js_neg x) = - val x"
  by (cases x) simp_all

lemma fin_sub: "Number_isFinite x \<Longrightarrow> Number_isFinite y \<Longrightarrow>
    Number_isFinite (js_sub x y) \<and> val (js_sub x y) = val x - val y"
  using fin_add [of x "js_neg y"] fin_neg [of y] by (simp add: js_sub_def)

lemma fin_mul: "Number_isFinite x \<Longrightarrow> Number_isFinite y \<Longrightarrow>
    Number_isFinite (js_mul x y) \<and> val (js_mul x y) = val x * val y"
  by (cases x; cases y) (simp_all add: js_mul_def)

lemma fin_div: "Number_isFinite x \<Longrightarrow> Number_isFinite y \<Longrightarrow> val y \<noteq> 0 \<Longrightarrow>
    Number_isFinite (js_div x y) \<and> val (js_div x y) = val x / val y"
  by (cases x; cases y) (simp_all add: js_div_def)



lemma mul_Fin_nonneg: "0 \<le> a \<Longrightarrow> js_mul (Fin a) (Fin b) = finite_of (b < 0) (a * b)"
  by (auto simp add: js_mul_def)

lemma add_Fin: "js_add (Fin a) y = (if Number_isFinite y then Fin (a + val y) else js_add (Fin a) y)"
  by (cases y) (simp_all add: js_add_def)


lemma fin_toDeg: "Number_isFinite r \<Longrightarrow> Number_isFinite (toDeg r) \<and> val (toDeg r) = val r * 180 / pi"
  using fin_mul [of r "Fin 180"] fin_div [of "js_mul r (Fin 180)" Math_PI]
  by (simp add: toDeg_def Math_PI_def)







lemma atan2_polar:
  assumes k: "0 < k" and lo: "- pi < t" and hi: "t \<le> pi"
  shows "atan2 (k * sin t) (k * cos t) = t"
proof -
  have q: "cos t \<noteq> 0 \<Longrightarrow> k * sin t / (k * cos t) = tan t"
    using k by (simp add: tan_def)
  consider (mid) "- (pi / 2) < t" "t < pi / 2" | (top) "t = pi / 2" | (bot) "t = - (pi / 2)"
    | (left) "pi / 2 < t" | (low) "t < - (pi / 2)"
    by linarith
  then show ?thesis
  proof cases
    case mid
    then have c: "0 < cos t" by (rule cos_gt_zero_pi)
    with k have "0 < k * cos t" by simp
    moreover from c have "k * sin t / (k * cos t) = tan t" by (intro q) simp
    ultimately show ?thesis using mid by (simp only: atan2_def if_True arctan_tan)
  next
    case top
    show ?thesis unfolding top using k by (simp add: atan2_def)
  next
    case bot
    show ?thesis unfolding bot using k by (simp add: atan2_def)
  next
    case left
    have "0 < cos (t - pi)" using left hi by (intro cos_gt_zero_pi) simp_all
    then have c: "cos t < 0" by simp
    have s: "0 \<le> sin t" using left hi by (intro sin_ge_zero) simp_all
    have "tan t = tan (t - pi)" using tan_periodic_pi [of "t - pi"] by simp
    moreover have "arctan (tan (t - pi)) = t - pi" using left hi by (intro arctan_tan) simp_all
    ultimately have "arctan (k * sin t / (k * cos t)) = t - pi" using c q by simp
    moreover from c k have "k * cos t < 0" by (simp add: mult_pos_neg)
    moreover from s k have "0 \<le> k * sin t" by simp
    ultimately show ?thesis by (simp add: atan2_def)
  next
    case low
    have "0 < cos (t + pi)" using low lo by (intro cos_gt_zero_pi) simp_all
    then have c: "cos t < 0" by simp
    have "0 < sin (t + pi)" using low lo by (intro sin_gt_zero) simp_all
    then have s: "sin t < 0" by simp
    have "tan t = tan (t + pi)" by simp
    moreover have "arctan (tan (t + pi)) = t + pi" using low lo by (intro arctan_tan) simp_all
    ultimately have "arctan (k * sin t / (k * cos t)) = t + pi" using c q by simp
    moreover from c k have "k * cos t < 0" by (simp add: mult_pos_neg)
    moreover from s k have "\<not> 0 \<le> k * sin t" by (simp add: mult_pos_neg not_le)
    ultimately show ?thesis by (simp add: atan2_def)
  qed
qed

lemma Math_atan2_Fin: "Math_atan2 (Fin y) (Fin x) = Fin (atan2 y x)"
  by (auto simp add: Math_atan2_def atan2_def zero_of_def)

lemma atan2_range: "- pi \<le> atan2 y x \<and> atan2 y x \<le> pi"
proof -
  have "- (pi / 2) < arctan (y / x)" "arctan (y / x) < pi / 2"
    by (rule arctan_lbound, rule arctan_ubound)
  moreover have "x < 0 \<Longrightarrow> 0 \<le> y \<Longrightarrow> arctan (y / x) \<le> 0"
    by (simp add: divide_nonneg_neg zero_le_arctan_iff arctan_le_zero_iff)
  moreover have "x < 0 \<Longrightarrow> y < 0 \<Longrightarrow> 0 \<le> arctan (y / x)"
    by (simp add: zero_le_divide_iff)
  ultimately show ?thesis using pi_gt_zero by (auto simp add: atan2_def)
qed

lemma toDeg_Fin: "Number_isFinite (toDeg (Fin t))" "val (toDeg (Fin t)) = t * 180 / pi"
  using fin_toDeg [of "Fin t"] by simp_all

lemma mul_Fin_pos: "0 < a \<Longrightarrow> js_mul (Fin a) (Fin b) = Fin (a * b)"
  by (auto simp add: js_mul_def finite_of_def zero_of_def)


lemma toRad_nonneg: "0 \<le> h \<Longrightarrow> toRad (Fin h) = Fin (h * pi / 180)"
  by (auto simp add: toRad_def Math_PI_def js_mul_def js_div_def finite_of_def zero_of_def
      mult_less_0_iff)

















text \<open>
  Claim C4. When the slope percent and the slope direction are both finite,
  \<open>predictHeading\<close> reads its heading from the wind vector \<open>(u, v)\<close> to which the vector
  \<open>0.002 * slopePct * (cos, sin)\<close> of the slope direction has been added component by
  component; the length of that vector is \<open>0.002 * \<bar>slopePct\<bar>\<close>.
\<close>

section \<open>Properties of the rounding\<close>

lemma rne_bounds: "\<lfloor>y\<rfloor> \<le> rne y \<and> rne y \<le> \<lceil>y\<rceil>"
proof -
  have "y - of_int \<lfloor>y\<rfloor> \<ge> 1 / 2 \<Longrightarrow> \<lceil>y\<rceil> = \<lfloor>y\<rfloor> + 1"
    by (intro ceiling_unique) linarith+
  then show ?thesis
    by (auto simp add: rne_def Let_def not_less)
qed

lemma rne_err: "\<bar>of_int (rne y) - y\<bar> \<le> 1 / 2"
proof -
  have "of_int \<lfloor>y\<rfloor> \<le> y" "y < of_int \<lfloor>y\<rfloor> + 1"
    by linarith+
  then show ?thesis
    by (auto simp add: rne_def Let_def)
qed

lemma rne_near: "\<bar>y - of_int M\<bar> < 1 / 2 \<Longrightarrow> rne y = M"
proof -
  assume a: "\<bar>y - of_int M\<bar> < 1 / 2"
  have e: "\<bar>of_int (rne y) - y\<bar> \<le> 1 / 2"
    by (rule rne_err)
  have "\<bar>of_int (rne y) - (of_int M :: real)\<bar> < 1"
    using a e by linarith
  then have "\<bar>rne y - M\<bar> < 1"
    by (metis of_int_1 of_int_abs of_int_diff of_int_less_iff)
  then show ?thesis
    by linarith
qed

lemma rne_of_int [simp]: "rne (of_int M) = M"
  by (rule rne_near) simp

lemma rne_tie_even: "even M \<Longrightarrow> \<bar>y - of_int M\<bar> \<le> 1 / 2 \<Longrightarrow> rne y = M"
proof -
  assume ev: "even M" and a: "\<bar>y - of_int M\<bar> \<le> 1 / 2"
  consider "\<bar>y - of_int M\<bar> < 1 / 2" | "y = of_int M + 1 / 2" | "y = of_int M - 1 / 2"
    using a by linarith
  then show ?thesis
  proof cases
    case 1
    then show ?thesis by (rule rne_near)
  next
    case 2
    then have "\<lfloor>y\<rfloor> = M"
      by (intro floor_unique) simp_all
    with 2 ev show ?thesis
      by (simp add: rne_def Let_def)
  next
    case 3
    then have f: "\<lfloor>y\<rfloor> = M - 1"
      by (intro floor_unique) simp_all
    with 3 ev show ?thesis
      by (simp add: rne_def Let_def)
  qed
qed

lemma rne_double: "of_int (rne y) \<le> 2 * y \<or> rne y = 0" if "0 \<le> y" for y :: real
proof (cases "y < 1 / 2")
  case True
  then have "\<bar>y - of_int 0\<bar> < 1 / 2"
    using that by simp
  then have "rne y = 0"
    by (rule rne_near)
  then show ?thesis ..
next
  case False
  have "\<bar>of_int (rne y) - y\<bar> \<le> 1 / 2"
    by (rule rne_err)
  with False have "of_int (rne y) \<le> 2 * y"
    by linarith
  then show ?thesis ..
qed

lemma two_powr_powi: "2 powr (of_int k) = (2::real) powi k"
  by (simp add: powr_real_of_int power_int_def power_one_over [symmetric] inverse_eq_divide)

lemma binary_exponent:
  assumes "0 < a"
  obtains k where "2 powi k \<le> a" "a < 2 powi (k + 1)" "quantum a = max k (- 1022) - 52"
proof -
  have "2 powr (of_int \<lfloor>log 2 a\<rfloor>) \<le> a \<and> a < 2 powr (of_int (\<lfloor>log 2 a\<rfloor> + 1))"
    using floor_log_eq_powr_iff [of a 2 "\<lfloor>log 2 a\<rfloor>"] assms by simp
  then have "2 powi \<lfloor>log 2 a\<rfloor> \<le> a" "a < 2 powi (\<lfloor>log 2 a\<rfloor> + 1)"
    by (simp_all only: two_powr_powi)
  then show thesis
    by (intro that [of "\<lfloor>log 2 a\<rfloor>"]) (simp_all add: quantum_def)
qed

lemma quantum_eq:
  assumes "2 powi k \<le> a" "a < 2 powi (k + 1)"
  shows "quantum a = max k (- 1022) - 52"
proof -
  have "0 < a"
    using assms(1) zero_less_power_int [of "2::real" k] by linarith
  then have "\<lfloor>log 2 a\<rfloor> = k"
    using floor_log_eq_powr_iff [of a 2 k] assms two_powr_powi [of k] two_powr_powi [of "k + 1"]
    by simp
  then show ?thesis
    by (simp add: quantum_def)
qed


lemma powi_pos [simp]: "0 < (2::real) powi k"
  by simp

lemma powi_add: "(2::real) powi (m + n) = 2 powi m * 2 powi n"
  by (simp add: power_int_add)

lemma powi_diff: "(2::real) powi (m - n) = 2 powi m / 2 powi n"
  by (simp add: power_int_diff)

lemma powi_less_iff: "(2::real) powi m < 2 powi n \<longleftrightarrow> m < n"
proof
  assume "(2::real) powi m < 2 powi n"
  then show "m < n"
    using power_int_increasing [of n m "2::real"] by (cases "m < n") auto
next
  assume "m < n"
  then show "(2::real) powi m < 2 powi n"
    by (intro power_int_strict_increasing) simp_all
qed

lemma powi_le_iff: "(2::real) powi m \<le> 2 powi n \<longleftrightarrow> m \<le> n"
  using powi_less_iff [of n m] by (auto simp add: not_less [symmetric])

lemma powi_nat: "0 \<le> k \<Longrightarrow> (2::real) powi k = of_int (2 ^ nat k)"
  by (simp add: power_int_def)

text \<open>The scaled argument of \<open>nearest\<close> lies below \<open>2 ^ 53\<close>, and from \<open>2 ^ 52\<close> on in the normal range.\<close>

lemma scaled_upper:
  assumes "0 < a"
  shows "a / 2 powi quantum a < 2 ^ 53"
proof -
  obtain k where k: "2 powi k \<le> a" "a < 2 powi (k + 1)" "quantum a = max k (- 1022) - 52"
    using assms by (rule binary_exponent)
  have "k + 1 \<le> quantum a + 53"
    using k(3) by simp
  then have "(2::real) powi (k + 1) \<le> 2 powi (quantum a + 53)"
    by (simp only: powi_le_iff)
  then have "a < 2 powi quantum a * 2 ^ 53"
    using k(2) by (simp add: powi_add)
  then show ?thesis
    by (simp add: field_simps)
qed

lemma scaled_lower:
  assumes "2 powi k \<le> a" "a < 2 powi (k + 1)" "- 1022 \<le> k"
  shows "quantum a = k - 52" "2 ^ 52 \<le> a / 2 powi quantum a"
proof -
  show q: "quantum a = k - 52"
    using quantum_eq [OF assms(1,2)] assms(3) by simp
  have "(2::real) powi k = 2 powi (k - 52) * 2 ^ 52"
    using powi_add [of "k - 52" 52] by simp
  then show "2 ^ 52 \<le> a / 2 powi quantum a"
    using assms(1) by (simp add: q field_simps)
qed

lemma quantum_ge: "- 1074 \<le> quantum a"
  by (simp add: quantum_def)

lemma nearest_nonneg: "0 \<le> a \<Longrightarrow> 0 \<le> nearest a"
proof -
  assume "0 \<le> a"
  then have "0 \<le> a / 2 powi quantum a"
    by simp
  then have "0 \<le> \<lfloor>a / 2 powi quantum a\<rfloor>"
    by simp
  then have "0 \<le> rne (a / 2 powi quantum a)"
    using rne_bounds [of "a / 2 powi quantum a"] by linarith
  then show ?thesis
    by (simp add: nearest_def)
qed

lemma nearest_err: "\<bar>nearest a - a\<bar> \<le> 2 powi quantum a / 2"
proof -
  let ?p = "(2::real) powi quantum a"
  have "nearest a - a = (of_int (rne (a / ?p)) - a / ?p) * ?p"
    by (simp add: nearest_def field_simps)
  then have "\<bar>nearest a - a\<bar> = \<bar>of_int (rne (a / ?p)) - a / ?p\<bar> * ?p"
    by (simp add: abs_mult)
  also have "\<dots> \<le> 1 / 2 * ?p"
    by (intro mult_right_mono rne_err) simp
  finally show ?thesis
    by simp
qed

lemma nearest_rel:
  assumes "2 powi (- 1022) \<le> a"
  shows "\<bar>nearest a - a\<bar> \<le> a * 2 powi (- 53)"
proof -
  have "0 < a"
    using assms powi_pos [of "- 1022"] by linarith
  then obtain k where k: "2 powi k \<le> a" "a < 2 powi (k + 1)"
    by (rule binary_exponent)
  have "(2::real) powi (- 1022) < 2 powi (k + 1)"
    using assms k(2) by linarith
  then have "- 1022 \<le> k"
    by (simp only: powi_less_iff)
  then have q: "quantum a = k - 52"
    using scaled_lower(1) k by blast
  have "(2::real) powi quantum a / 2 = 2 powi k * 2 powi (- 53)"
    using powi_add [of k "- 53"] powi_add [of "k - 53" 1] by (simp add: q)
  also have "\<dots> \<le> a * 2 powi (- 53)"
    using k(1) by (intro mult_right_mono) simp_all
  finally show ?thesis
    using nearest_err [of a] by linarith
qed

lemma nearest_double: "0 \<le> a \<Longrightarrow> nearest a \<le> 2 * a"
proof -
  assume a: "0 \<le> a"
  let ?p = "(2::real) powi quantum a"
  have "0 \<le> a / ?p"
    using a by simp
  then have "of_int (rne (a / ?p)) \<le> 2 * (a / ?p) \<or> rne (a / ?p) = 0"
    by (rule rne_double)
  then show ?thesis
  proof
    assume "of_int (rne (a / ?p)) \<le> 2 * (a / ?p)"
    then have "of_int (rne (a / ?p)) * ?p \<le> 2 * (a / ?p) * ?p"
      by (intro mult_right_mono) simp_all
    then show ?thesis
      by (simp add: nearest_def)
  next
    assume "rne (a / ?p) = 0"
    then show ?thesis
      using a by (simp add: nearest_def)
  qed
qed

text \<open>A multiple of a spacing that is not finer than the one at \<open>a\<close> bounds \<open>nearest a\<close>.\<close>

lemma grid_scaled:
  assumes "q \<le> e"
  shows "of_int M * 2 powi e / 2 powi q = (of_int (M * 2 ^ nat (e - q)) :: real)"
proof -
  have "(2::real) powi e = 2 powi (e - q) * 2 powi q"
    using powi_add [of "e - q" q] by simp
  moreover have "(2::real) powi (e - q) = of_int (2 ^ nat (e - q))"
    using assms by (intro powi_nat) simp
  ultimately show ?thesis
    by simp
qed

lemma quantum_le_exponent:
  assumes "a = of_int M * 2 powi e" "0 < M" "M < 2 ^ 53" "- 1074 \<le> e"
  shows "quantum a \<le> e"
proof -
  have pos: "0 < a"
    using assms(1,2) by simp
  then obtain k where k: "2 powi k \<le> a" "a < 2 powi (k + 1)" "quantum a = max k (- 1022) - 52"
    by (rule binary_exponent)
  have "(of_int M :: real) < 2 ^ 53"
    using assms(3) by (metis of_int_less_iff of_int_numeral of_int_power)
  then have "a < 2 ^ 53 * 2 powi e"
    unfolding assms(1) by (intro mult_strict_right_mono) simp_all
  then have "(2::real) powi k < 2 powi (53 + e)"
    using k(1) by (simp add: powi_add)
  then have "k < 53 + e"
    by (simp only: powi_less_iff)
  then show ?thesis
    using k(3) assms(4) by simp
qed

lemma nearest_exact:
  assumes "a = of_int M * 2 powi e" "0 < M" "M < 2 ^ 53" "- 1074 \<le> e"
  shows "nearest a = a"
proof -
  have q: "quantum a \<le> e"
    using assms by (rule quantum_le_exponent)
  have "of_int M * 2 powi e / 2 powi quantum a = (of_int (M * 2 ^ nat (e - quantum a)) :: real)"
    using q by (rule grid_scaled)
  then have "a / 2 powi quantum a = of_int (M * 2 ^ nat (e - quantum a))"
    by (simp only: assms(1) [symmetric])
  then have "nearest a = a / 2 powi quantum a * 2 powi quantum a"
    unfolding nearest_def by (simp only: rne_of_int)
  then show ?thesis
    by simp
qed

lemma nearest_ge:
  assumes "d = of_int M * 2 powi e" "0 < M" "M < 2 ^ 53" "- 1074 \<le> e" "d \<le> a"
  shows "d \<le> nearest a"
proof (cases "quantum a \<le> e")
  case True
  let ?p = "(2::real) powi quantum a"
  let ?D = "M * 2 ^ nat (e - quantum a)"
  have D: "d / ?p = of_int ?D"
    unfolding assms(1) using True by (rule grid_scaled)
  have "d / ?p \<le> a / ?p"
    using assms(5) by (simp add: divide_right_mono)
  then have "?D \<le> \<lfloor>a / ?p\<rfloor>"
    by (simp only: D le_floor_iff)
  then have "?D \<le> rne (a / ?p)"
    using rne_bounds [of "a / ?p"] by linarith
  then have "(of_int ?D :: real) \<le> of_int (rne (a / ?p))"
    by (simp only: of_int_le_iff)
  then have "of_int ?D * ?p \<le> of_int (rne (a / ?p)) * ?p"
    by (intro mult_right_mono) simp_all
  then show ?thesis
    unfolding nearest_def D [symmetric] by simp
next
  case False
  have pos: "0 < d"
    using assms(1,2) by simp
  then have "0 < a"
    using assms(5) by linarith
  then obtain k where k: "2 powi k \<le> a" "a < 2 powi (k + 1)" "quantum a = max k (- 1022) - 52"
    by (rule binary_exponent)
  have n: "- 1022 \<le> k"
    using False k(3) assms(4) by simp
  then have q: "quantum a = k - 52" and y: "2 ^ 52 \<le> a / 2 powi quantum a"
    using scaled_lower [OF k(1,2)] by simp_all
  let ?p = "(2::real) powi quantum a"
  have "(of_int (2 ^ 52) :: real) \<le> a / ?p"
    using y by simp
  then have "2 ^ 52 \<le> \<lfloor>a / ?p\<rfloor>"
    by (simp only: le_floor_iff)
  then have "2 ^ 52 \<le> rne (a / ?p)"
    using rne_bounds [of "a / ?p"] by linarith
  then have "(of_int (2 ^ 52) :: real) \<le> of_int (rne (a / ?p))"
    by (simp only: of_int_le_iff)
  then have "2 ^ 52 * ?p \<le> of_int (rne (a / ?p)) * ?p"
    by (intro mult_right_mono) simp_all
  then have 1: "2 ^ 52 * ?p \<le> nearest a"
    by (simp add: nearest_def)
  have "(of_int M :: real) < 2 ^ 53"
    using assms(3) by (metis of_int_less_iff of_int_numeral of_int_power)
  then have "d < 2 ^ 53 * 2 powi e"
    unfolding assms(1) by (intro mult_strict_right_mono) simp_all
  also have "\<dots> = 2 powi (e + 53)"
    by (simp add: powi_add)
  also have "\<dots> \<le> 2 powi (quantum a + 52)"
    using False by (simp add: powi_le_iff)
  also have "\<dots> = 2 ^ 52 * ?p"
    by (simp add: powi_add)
  finally show ?thesis
    using 1 by linarith
qed

lemma nearest_le:
  assumes "d = of_int M * 2 powi e" "0 < M" "M < 2 ^ 53" "- 1074 \<le> e" "0 < a" "a \<le> d"
  shows "nearest a \<le> d"
proof (cases "quantum a \<le> e")
  case True
  let ?p = "(2::real) powi quantum a"
  let ?D = "M * 2 ^ nat (e - quantum a)"
  have D: "d / ?p = of_int ?D"
    unfolding assms(1) using True by (rule grid_scaled)
  have "a / ?p \<le> d / ?p"
    using assms(6) by (simp add: divide_right_mono)
  then have "\<lceil>a / ?p\<rceil> \<le> ?D"
    by (simp only: D ceiling_le_iff)
  then have "rne (a / ?p) \<le> ?D"
    using rne_bounds [of "a / ?p"] by linarith
  then have "(of_int (rne (a / ?p)) :: real) \<le> of_int ?D"
    by (simp only: of_int_le_iff)
  then have "of_int (rne (a / ?p)) * ?p \<le> of_int ?D * ?p"
    by (intro mult_right_mono) simp_all
  then show ?thesis
    unfolding nearest_def D [symmetric] by simp
next
  case False
  obtain k where k: "2 powi k \<le> a" "a < 2 powi (k + 1)" "quantum a = max k (- 1022) - 52"
    using assms(5) by (rule binary_exponent)
  have n: "- 1022 \<le> k"
    using False k(3) assms(4) by simp
  then have q: "quantum a = k - 52"
    using scaled_lower(1) [OF k(1,2)] by simp
  have "(of_int M :: real) < 2 ^ 53"
    using assms(3) by (metis of_int_less_iff of_int_numeral of_int_power)
  then have "d < 2 ^ 53 * 2 powi e"
    unfolding assms(1) by (intro mult_strict_right_mono) simp_all
  also have "\<dots> = 2 powi (e + 53)"
    by (simp add: powi_add)
  also have "\<dots> \<le> 2 powi k"
    using False q by (simp add: powi_le_iff)
  finally have "d < a"
    using k(1) by linarith
  then show ?thesis
    using assms(6) by linarith
qed

lemma nearest_abs_err:
  assumes "0 < a"
  shows "\<bar>nearest a - a\<bar> \<le> a * 2 powi (- 53) + 2 powi (- 1075)"
proof (cases "2 powi (- 1022) \<le> a")
  case True
  then have "\<bar>nearest a - a\<bar> \<le> a * 2 powi (- 53)"
    by (rule nearest_rel)
  moreover have "0 < (2::real) powi (- 1075)"
    by (rule powi_pos)
  ultimately show ?thesis
    by linarith
next
  case False
  obtain k where k: "2 powi k \<le> a" "a < 2 powi (k + 1)" "quantum a = max k (- 1022) - 52"
    using assms by (rule binary_exponent)
  have "(2::real) powi k < 2 powi (- 1022)"
    using False k(1) by linarith
  then have "k < - 1022"
    by (simp only: powi_less_iff)
  then have "quantum a = - 1074"
    using k(3) by simp
  moreover have "(2::real) powi (- 1074) / 2 = 2 powi (- 1075)"
    using powi_add [of "- 1075" 1] by simp
  ultimately have "\<bar>nearest a - a\<bar> \<le> 2 powi (- 1075)"
    using nearest_err [of a] by simp
  moreover have "0 \<le> a * 2 powi (- 53)"
    using assms by simp
  ultimately show ?thesis
    by linarith
qed

lemma nearest_grid:
  assumes "0 < a"
  obtains M where "nearest a = of_int M * 2 powi quantum a" "0 \<le> M" "M \<le> 2 ^ 53"
proof -
  let ?y = "a / 2 powi quantum a"
  have "?y < of_int (2 ^ 53)"
    using scaled_upper [OF assms] by simp
  then have "\<lceil>?y\<rceil> \<le> 2 ^ 53"
    by (simp only: ceiling_le_iff)
  then have 1: "rne ?y \<le> 2 ^ 53"
    using rne_bounds [of ?y] by linarith
  have "0 \<le> ?y"
    using assms by simp
  then have "0 \<le> \<lfloor>?y\<rfloor>"
    by simp
  then have 2: "0 \<le> rne ?y"
    using rne_bounds [of ?y] by linarith
  show thesis
    using 1 2 by (intro that [of "rne ?y"]) (simp_all add: nearest_def)
qed

subsection \<open>Rounding to binary64\<close>

lemma round64_zero [simp]: "round64 0 = Fin 0"
  by (simp add: round64_def)

lemma round64_pos: "0 < x \<Longrightarrow> round64 x = (if 2 ^ 1024 \<le> nearest x then PInf else Fin (nearest x))"
  by (simp add: round64_def Let_def inf_of_def)

lemma round64_neg:
  "x < 0 \<Longrightarrow> round64 x = (if 2 ^ 1024 \<le> nearest (- x) then NInf else finite_of True (- nearest (- x)))"
  by (simp add: round64_def Let_def inf_of_def)

lemma round64_notNaN [simp]: "\<not> isNaN (round64 x)"
  by (simp add: round64_def Let_def inf_of_def)

lemma round64_sign: "x \<noteq> 0 \<Longrightarrow> negative (round64 x) = (x < 0)"
proof -
  assume "x \<noteq> 0"
  then consider "0 < x" | "x < 0"
    by linarith
  then show ?thesis
  proof cases
    case 1
    then have "0 \<le> nearest x"
      by (intro nearest_nonneg) simp
    with 1 show ?thesis
      by (simp add: round64_pos not_less)
  next
    case 2
    then have "0 \<le> nearest (- x)"
      by (intro nearest_nonneg) simp
    with 2 show ?thesis
      by (simp add: round64_neg finite_of_def zero_of_def)
  qed
qed

lemma round64_val:
  "Number_isFinite (round64 x) \<Longrightarrow> val (round64 x) = (if x < 0 then - nearest (- x) else if x = 0 then 0 else nearest x)"
proof -
  assume f: "Number_isFinite (round64 x)"
  consider "x = 0" | "0 < x" | "x < 0"
    by linarith
  then show ?thesis
  proof cases
    case 1
    then show ?thesis by simp
  next
    case 2
    then show ?thesis
      using f by (simp add: round64_pos split: if_splits)
  next
    case 3
    then show ?thesis
      using f by (simp add: round64_neg split: if_splits)
  qed
qed

lemma round64_finite_iff:
  "Number_isFinite (round64 x) \<longleftrightarrow> x = 0 \<or> nearest \<bar>x\<bar> < 2 ^ 1024"
proof -
  consider "x = 0" | "0 < x" | "x < 0"
    by linarith
  then show ?thesis
  proof cases
    case 1
    then show ?thesis by simp
  next
    case 2
    then show ?thesis
      by (simp add: round64_pos not_le)
  next
    case 3
    then show ?thesis
      by (simp add: round64_neg not_le)
  qed
qed

lemma round64_minus: "x \<noteq> 0 \<Longrightarrow> round64 (- x) = js_neg (round64 x)"
proof -
  assume "x \<noteq> 0"
  then consider "0 < x" | "x < 0"
    by linarith
  then show ?thesis
  proof cases
    case 1
    then show ?thesis
      by (simp add: round64_pos round64_neg finite_of_def zero_of_def)
  next
    case 2
    then show ?thesis
      by (simp add: round64_pos round64_neg finite_of_def zero_of_def)
  qed
qed

lemma round64_err:
  assumes "Number_isFinite (round64 x)"
  shows "\<bar>val (round64 x) - x\<bar> \<le> \<bar>x\<bar> * 2 powi (- 53) + 2 powi (- 1075)"
proof -
  consider "x = 0" | "0 < x" | "x < 0"
    by linarith
  then show ?thesis
  proof cases
    case 1
    then show ?thesis by simp
  next
    case 2
    then show ?thesis
      using nearest_abs_err [of x] round64_val [OF assms] by simp
  next
    case 3
    then show ?thesis
      using nearest_abs_err [of "- x"] round64_val [OF assms] by simp
  qed
qed

lemma round64_rel:
  assumes "Number_isFinite (round64 x)" "2 powi (- 1022) \<le> \<bar>x\<bar>"
  shows "\<bar>val (round64 x) - x\<bar> \<le> \<bar>x\<bar> * 2 powi (- 53)"
proof -
  have nz: "x \<noteq> 0"
    using assms(2) powi_pos [of "- 1022"] by auto
  then consider "0 < x" | "x < 0"
    by linarith
  then show ?thesis
  proof cases
    case 1
    then show ?thesis
      using nearest_rel [of x] assms(2) round64_val [OF assms(1)] by simp
  next
    case 2
    then show ?thesis
      using nearest_rel [of "- x"] assms(2) round64_val [OF assms(1)] by simp
  qed
qed

lemma round64_double:
  assumes "Number_isFinite (round64 x)"
  shows "\<bar>val (round64 x)\<bar> \<le> 2 * \<bar>x\<bar>"
proof -
  consider "x = 0" | "0 < x" | "x < 0"
    by linarith
  then show ?thesis
  proof cases
    case 1
    then show ?thesis by simp
  next
    case 2
    then show ?thesis
      using nearest_double [of x] nearest_nonneg [of x] round64_val [OF assms] by simp
  next
    case 3
    then show ?thesis
      using nearest_double [of "- x"] nearest_nonneg [of "- x"] round64_val [OF assms] by simp
  qed
qed

subsection \<open>Binary64 numbers\<close>

lemma is_double_zero [simp]: "is_double 0"
  by (simp add: is_double_def)

lemma is_double_pos:
  assumes "x = of_int M * 2 powi e" "0 < M" "M \<le> 2 ^ 53" "- 1074 \<le> e" "x < 2 ^ 1024"
  shows "nearest x = x"
proof (cases "M < 2 ^ 53")
  case True
  with assms show ?thesis
    by (intro nearest_exact [of x M e]) simp_all
next
  case False
  then have M: "M = 2 ^ 53"
    using assms(3) by simp
  have "x = of_int (2 ^ 52) * 2 powi (e + 1)"
    unfolding assms(1) M by (simp add: powi_add)
  then show ?thesis
    using assms(4) by (intro nearest_exact [of x "2 ^ 52" "e + 1"]) simp_all
qed

lemma is_doubleI:
  assumes "x = of_int M * 2 powi e" "\<bar>M\<bar> \<le> 2 ^ 53" "- 1074 \<le> e" "\<bar>x\<bar> < 2 ^ 1024"
  shows "is_double x"
proof -
  consider "x = 0" | "0 < x" | "x < 0"
    by linarith
  then show ?thesis
  proof cases
    case 1
    then show ?thesis by simp
  next
    case 2
    then have "0 < of_int M * (2::real) powi e"
      using assms(1) by simp
    then have "0 < (of_int M :: real)"
      by (rule zero_less_mult_pos2) simp
    then have "0 < M"
      by simp
    then have "nearest x = x"
      using assms 2 by (intro is_double_pos [of x M e]) simp_all
    then show ?thesis
      using 2 assms(4) by (simp add: is_double_def round64_pos)
  next
    case 3
    then have "0 < of_int (- M) * (2::real) powi e"
      using assms(1) by simp
    then have "0 < (of_int (- M) :: real)"
      by (rule zero_less_mult_pos2) simp
    then have "M < 0"
      by simp
    moreover have "- x = of_int (- M) * 2 powi e"
      using assms(1) by simp
    ultimately have "nearest (- x) = - x"
      using assms 3 by (intro is_double_pos [of "- x" "- M" e]) simp_all
    then show ?thesis
      using 3 assms(4) by (simp add: is_double_def round64_neg)
  qed
qed

lemma is_doubleE:
  assumes "is_double x"
  obtains M e where "x = of_int M * 2 powi e" "\<bar>M\<bar> \<le> 2 ^ 53" "- 1074 \<le> e" "\<bar>x\<bar> < 2 ^ 1024"
proof -
  consider "x = 0" | "0 < x" | "x < 0"
    by linarith
  then show thesis
  proof cases
    case 1
    then show thesis
      by (intro that [of 0 0]) simp_all
  next
    case 2
    have r: "round64 x = Fin x"
      using assms by (simp only: is_double_def)
    have b: "\<not> 2 ^ 1024 \<le> nearest x"
      using r 2 by (auto simp only: round64_pos split: if_splits)
    then have "Fin (nearest x) = Fin x"
      using r 2 by (simp only: round64_pos if_False)
    then have n: "nearest x = x" "x < 2 ^ 1024"
      using b by simp_all
    obtain M where M: "nearest x = of_int M * 2 powi quantum x" "0 \<le> M" "M \<le> 2 ^ 53"
      using 2 by (rule nearest_grid)
    show thesis
    proof (rule that [of M "quantum x"])
      show "x = of_int M * 2 powi quantum x"
        using M(1) by (simp only: n(1))
      show "\<bar>M\<bar> \<le> 2 ^ 53"
        using M(2,3) by linarith
      show "- 1074 \<le> quantum x"
        by (rule quantum_ge)
      show "\<bar>x\<bar> < 2 ^ 1024"
        using n(2) 2 by linarith
    qed
  next
    case 3
    have r: "round64 x = Fin x"
      using assms by (simp only: is_double_def)
    have b: "\<not> 2 ^ 1024 \<le> nearest (- x)"
      using r 3 by (auto simp only: round64_neg split: if_splits)
    then have "finite_of True (- nearest (- x)) = Fin x"
      using r 3 by (simp only: round64_neg if_False)
    then have "- nearest (- x) = x"
      by (metis finite_of_fin(2) val.simps(1))
    then have n: "nearest (- x) = - x" "- x < 2 ^ 1024"
      using b by simp_all
    have "0 < - x"
      using 3 by simp
    then obtain M where M: "nearest (- x) = of_int M * 2 powi quantum (- x)" "0 \<le> M" "M \<le> 2 ^ 53"
      by (rule nearest_grid)
    show thesis
    proof (rule that [of "- M" "quantum (- x)"])
      have "- x = of_int M * 2 powi quantum (- x)"
        using M(1) by (simp only: n(1))
      then show "x = of_int (- M) * 2 powi quantum (- x)"
        by simp
      show "\<bar>- M\<bar> \<le> 2 ^ 53"
        using M(2,3) by linarith
      show "- 1074 \<le> quantum (- x)"
        by (rule quantum_ge)
      show "\<bar>x\<bar> < 2 ^ 1024"
        using n(2) 3 by linarith
    qed
  qed
qed

lemma is_double_minus: "is_double x \<Longrightarrow> is_double (- x)"
proof -
  assume "is_double x"
  then obtain M e where "x = of_int M * 2 powi e" "\<bar>M\<bar> \<le> 2 ^ 53" "- 1074 \<le> e" "\<bar>x\<bar> < 2 ^ 1024"
    by (rule is_doubleE)
  then show ?thesis
    by (intro is_doubleI [of "- x" "- M" e]) simp_all
qed

lemma is_double_nearest:
  assumes "0 < a" "nearest a < 2 ^ 1024"
  shows "is_double (nearest a)"
proof -
  obtain M where "nearest a = of_int M * 2 powi quantum a" "0 \<le> M" "M \<le> 2 ^ 53"
    using assms(1) by (rule nearest_grid)
  then show ?thesis
    using assms nearest_nonneg [of a] quantum_ge [of a]
    by (intro is_doubleI [of "nearest a" M "quantum a"]) simp_all
qed

lemma round64_is_double:
  assumes "Number_isFinite (round64 x)"
  shows "is_double (val (round64 x))"
proof -
  consider "x = 0" | "0 < x" | "x < 0"
    by linarith
  then show ?thesis
  proof cases
    case 1
    then show ?thesis by simp
  next
    case 2
    then show ?thesis
      using assms is_double_nearest [of x] by (simp add: round64_pos split: if_splits)
  next
    case 3
    then have "nearest (- x) < 2 ^ 1024"
      using assms by (simp add: round64_neg split: if_splits)
    then have "is_double (nearest (- x))"
      using 3 by (intro is_double_nearest) simp_all
    then have "is_double (- nearest (- x))"
      by (rule is_double_minus)
    then show ?thesis
      using 3 round64_val [OF assms] by simp
  qed
qed

lemma round64_idem: "round64 x = Fin v \<Longrightarrow> round64 v = Fin v"
proof -
  assume a: "round64 x = Fin v"
  then have "Number_isFinite (round64 x)" "val (round64 x) = v"
    by simp_all
  then have "is_double v"
    using round64_is_double [of x] by blast
  then show ?thesis
    by (simp only: is_double_def)
qed

subsection \<open>Bounds by binary64 numbers\<close>

lemma is_double_posE:
  assumes "is_double d" "0 < d"
  obtains M e where "d = of_int M * 2 powi e" "0 < M" "M < 2 ^ 53" "- 1074 \<le> e" "d < 2 ^ 1024"
proof -
  obtain M e where d: "d = of_int M * 2 powi e" "\<bar>M\<bar> \<le> 2 ^ 53" "- 1074 \<le> e" "\<bar>d\<bar> < 2 ^ 1024"
    using assms(1) by (rule is_doubleE)
  have "0 < of_int M * (2::real) powi e"
    using d(1) assms(2) by simp
  then have "0 < (of_int M :: real)"
    by (rule zero_less_mult_pos2) simp
  then have M: "0 < M"
    by simp
  show thesis
  proof (cases "M < 2 ^ 53")
    case True
    then show thesis
      using d M assms(2) by (intro that [of M e]) simp_all
  next
    case False
    then have "M = 2 ^ 53"
      using d(2) M by simp
    then have "d = of_int (2 ^ 52) * 2 powi (e + 1)"
      using d(1) by (simp add: powi_add)
    then show thesis
      using d(3,4) assms(2) by (intro that [of "2 ^ 52" "e + 1"]) simp_all
  qed
qed

lemma nearest_le_double:
  assumes "is_double d" "0 < a" "a \<le> d"
  shows "nearest a \<le> d"
proof -
  have "0 < d"
    using assms(2,3) by linarith
  with assms(1) obtain M e where "d = of_int M * 2 powi e" "0 < M" "M < 2 ^ 53" "- 1074 \<le> e"
    by (rule is_double_posE)
  then show ?thesis
    using assms(2,3) by (rule nearest_le)
qed

lemma nearest_ge_double:
  assumes "is_double d" "0 < d" "d \<le> a"
  shows "d \<le> nearest a"
proof -
  from assms(1,2) obtain M e where "d = of_int M * 2 powi e" "0 < M" "M < 2 ^ 53" "- 1074 \<le> e"
    by (rule is_double_posE)
  then show ?thesis
    using assms(3) by (rule nearest_ge)
qed

lemma is_double_bound: "is_double d \<Longrightarrow> \<bar>d\<bar> < 2 ^ 1024"
  by (erule is_doubleE)

lemma round64_le:
  assumes "is_double d" "x \<le> d"
  shows "js_le (round64 x) (Fin d)"
proof -
  consider "x = 0" | "0 < x" | "x < 0"
    by linarith
  then show ?thesis
  proof cases
    case 1
    then show ?thesis
      using assms(2) by (simp add: js_le_def)
  next
    case 2
    then have "nearest x \<le> d"
      using assms by (intro nearest_le_double) simp_all
    moreover have "d < 2 ^ 1024"
      using is_double_bound [OF assms(1)] by linarith
    ultimately show ?thesis
      using 2 by (simp add: round64_pos js_le_def)
  next
    case 3
    have n: "0 \<le> nearest (- x)"
      using 3 by (intro nearest_nonneg) simp
    have "- nearest (- x) \<le> d"
    proof (cases "0 \<le> d")
      case True
      with n show ?thesis by linarith
    next
      case False
      then have "- d \<le> nearest (- x)"
        using assms is_double_minus [of d] by (intro nearest_ge_double) simp_all
      then show ?thesis by linarith
    qed
    then show ?thesis
      using 3 by (simp add: round64_neg js_le_def)
  qed
qed

lemma round64_ge:
  assumes "is_double d" "d \<le> x"
  shows "js_le (Fin d) (round64 x)"
proof -
  consider "x = 0" | "0 < x" | "x < 0"
    by linarith
  then show ?thesis
  proof cases
    case 1
    then show ?thesis
      using assms(2) by (simp add: js_le_def)
  next
    case 2
    have n: "0 \<le> nearest x"
      using 2 by (intro nearest_nonneg) simp
    have "d \<le> nearest x"
    proof (cases "0 < d")
      case True
      then show ?thesis
        using assms by (intro nearest_ge_double) simp_all
    next
      case False
      with n show ?thesis by linarith
    qed
    then show ?thesis
      using 2 by (simp add: round64_pos js_le_def)
  next
    case 3
    then have "nearest (- x) \<le> - d"
      using assms is_double_minus [of d] by (intro nearest_le_double) simp_all
    moreover have "- d < 2 ^ 1024"
      using is_double_bound [OF assms(1)] by linarith
    ultimately show ?thesis
      using 3 by (simp add: round64_neg js_le_def)
  qed
qed

lemma js_le_Fin: "js_le (Fin a) y \<Longrightarrow> js_le y (Fin b) \<Longrightarrow> Number_isFinite y \<and> a \<le> val y \<and> val y \<le> b"
  by (cases y) (simp_all add: js_le_def)

lemma round64_bounds:
  assumes "is_double lo" "is_double hi" "lo \<le> x" "x \<le> hi"
  shows "Number_isFinite (round64 x) \<and> lo \<le> val (round64 x) \<and> val (round64 x) \<le> hi"
  using round64_ge [OF assms(1,3)] round64_le [OF assms(2,4)] by (rule js_le_Fin)

lemma round64_exact: "is_double x \<Longrightarrow> round64 x = Fin x"
  by (simp only: is_double_def)

text \<open>Integers up to \<open>2 ^ 53\<close> and their binary fractions are binary64 numbers.\<close>

lemma is_double_int: "\<bar>n\<bar> \<le> 2 ^ 53 \<Longrightarrow> is_double (of_int n)"
proof -
  assume n: "\<bar>n\<bar> \<le> 2 ^ 53"
  then have "\<bar>of_int n :: real\<bar> \<le> of_int (2 ^ 53)"
    by (simp only: of_int_abs [symmetric] of_int_le_iff)
  then have "\<bar>of_int n :: real\<bar> < 2 ^ 1024"
    by simp
  then show ?thesis
    using n by (intro is_doubleI [of "of_int n" n 0]) simp_all
qed

lemma is_double_numeral [simp]: "numeral w \<le> (2 ^ 53 :: int) \<Longrightarrow> is_double (numeral w)"
  using is_double_int [of "numeral w"] by simp

lemma is_double_one [simp]: "is_double 1"
  using is_double_int [of 1] by simp


text \<open>The rounding of a real that lies within half a spacing of a multiple of the spacing.\<close>

lemma round64_near:
  assumes "2 powi k \<le> x" "x < 2 powi (k + 1)" "- 1022 \<le> k" "k \<le> 1022"
    and "\<bar>x - of_int M * 2 powi (k - 52)\<bar> < 2 powi (k - 53)"
  shows "round64 x = Fin (of_int M * 2 powi (k - 52))"
proof -
  let ?p = "(2::real) powi (k - 52)"
  have pos: "0 < x"
    using assms(1) powi_pos [of k] by linarith
  have q: "quantum x = k - 52"
    using assms(1,2,3) by (rule scaled_lower(1))
  have h: "(2::real) powi (k - 53) = ?p / 2"
    using powi_add [of "k - 53" 1] by simp
  have "x / ?p - of_int M = (x - of_int M * ?p) / ?p"
    by (simp add: field_simps)
  then have "\<bar>x / ?p - of_int M\<bar> = \<bar>x - of_int M * ?p\<bar> / ?p"
    by (simp add: abs_divide)
  also have "\<dots> < (?p / 2) / ?p"
    using assms(5) by (intro divide_strict_right_mono) (simp_all add: h)
  finally have "\<bar>x / ?p - of_int M\<bar> < 1 / 2"
    by simp
  then have "rne (x / ?p) = M"
    by (rule rne_near)
  then have n: "nearest x = of_int M * ?p"
    by (simp add: nearest_def q)
  have "nearest x \<le> 2 * x"
    using pos by (intro nearest_double) simp
  also have "\<dots> < 2 * 2 powi (k + 1)"
    using assms(2) by simp
  also have "\<dots> = 2 powi (k + 2)"
    using powi_add [of "k + 1" 1] by (simp add: add.commute)
  also have "\<dots> \<le> 2 powi 1024"
    using assms(4) by (simp only: powi_le_iff) 
  finally have "nearest x < 2 ^ 1024"
    by simp
  then show ?thesis
    using pos n by (simp add: round64_pos)
qed

subsection \<open>The rounded operators\<close>

lemma add64_Fin: "add64 (Fin a) (Fin b) = (if a + b = 0 then Fin 0 else round64 (a + b))"
  by (simp add: add64_def zero_of_def)

lemma mul64_Fin:
  "mul64 (Fin a) (Fin b) = (if a * b = 0 then zero_of ((a < 0) \<noteq> (b < 0)) else round64 (a * b))"
  by (simp add: mul64_def)

lemma div64_Fin:
  "b \<noteq> 0 \<Longrightarrow> div64 (Fin a) (Fin b) = (if a = 0 then zero_of (b < 0) else round64 (a / b))"
  by (simp add: div64_def)

lemma is_double_half_int: "\<bar>n\<bar> \<le> 2 ^ 53 \<Longrightarrow> is_double (of_int n / 2)"
proof -
  assume n: "\<bar>n\<bar> \<le> 2 ^ 53"
  then have "\<bar>of_int n :: real\<bar> \<le> of_int (2 ^ 53)"
    by (simp only: of_int_abs [symmetric] of_int_le_iff)
  then have "\<bar>of_int n / 2 :: real\<bar> < 2 ^ 1024"
    by simp
  then show ?thesis
    using n by (intro is_doubleI [of "of_int n / 2" n "- 1"]) simp_all
qed

lemma is_double_half [simp]: "numeral w \<le> (2 ^ 53 :: int) \<Longrightarrow> is_double (numeral w / 2)"
  using is_double_half_int [of "numeral w"] by simp

lemma round64_numeral [simp]: "numeral w \<le> (2 ^ 53 :: int) \<Longrightarrow> round64 (numeral w) = Fin (numeral w)"
  by (intro round64_exact is_double_numeral)

lemma round64_neg_numeral [simp]:
  "numeral w \<le> (2 ^ 53 :: int) \<Longrightarrow> round64 (- numeral w) = Fin (- numeral w)"
  by (intro round64_exact is_double_minus is_double_numeral)

lemma round64_one [simp]: "round64 1 = Fin 1" "round64 (- 1) = Fin (- 1)"
  by (intro round64_exact is_double_minus is_double_one)+

lemma round64_half [simp]: "numeral w \<le> (2 ^ 53 :: int) \<Longrightarrow> round64 (numeral w / 2) = Fin (numeral w / 2)"
  by (intro round64_exact is_double_half)

lemma round64_overflow: "2 ^ 1024 \<le> x \<Longrightarrow> round64 x = PInf"
proof -
  assume x: "2 ^ 1024 \<le> x"
  have "(2::real) ^ 1024 \<le> nearest x"
    using x by (intro nearest_ge [of "2 ^ 1024" 1 1024 x]) simp_all
  moreover have "0 < x"
    using x by (rule less_le_trans [rotated]) simp
  ultimately show ?thesis
    by (simp only: round64_pos if_True)
qed

section \<open>Properties of the marker size scale\<close>

lemma sqrt64_negative: "js_le q (Fin d) \<Longrightarrow> d < 0 \<Longrightarrow> sqrt64 q = NaN"
  by (cases q) (simp_all add: js_le_def)

lemma radius_NaN: "add64 (Fin 6) (mul64 (Math_max (Fin 0) (Math_min (Fin 1) NaN)) (Fin 16)) = NaN"
  by (simp add: Math_min_def Math_max_def mul64_def add64_def)

text \<open>
  Claim C7. The function guards against a zero maximum and a non-finite area and clamps
  the root to \<open>[0, 1]\<close>, and its comment gives the range \<^verbatim>\<open>6..22 px\<close>; but a negative
  area beside a positive maximum, which \<open>App\<close> passes on when a total is negative, makes
  the quotient negative, \<^verbatim>\<open>Math.sqrt\<close> gives \<open>NaN\<close>, and \<^verbatim>\<open>Math.min\<close> and \<^verbatim>\<open>Math.max\<close>
  pass it on. Whenever the quotient of two finite numbers is negative (and does not
  round to zero), the radius is \<open>NaN\<close>: neither the 6 that the formula of the claim
  gives there, nor comparable with the radius 6 of the area 0.
\<close>

theorem radiusFor_negative_area:
  assumes "Number_isFinite areaHa" "Number_isFinite maxArea"
    and "val areaHa / val maxArea \<le> - (2 powi (- 1074))"
  shows "radiusFor areaHa maxArea = NaN"
proof -
  have neg: "val areaHa / val maxArea < 0"
    using assms(3) powi_pos [of "- 1074"] by linarith
  then have nz: "val areaHa \<noteq> 0" "val maxArea \<noteq> 0"
    by auto
  have t: "truthy maxArea"
    using assms(2) nz(2) by (cases maxArea) (simp_all add: truthy_def)
  have d: "div64 areaHa maxArea = round64 (val areaHa / val maxArea)"
    using assms(1,2) nz by (cases areaHa; cases maxArea) (simp_all add: div64_def)
  have "is_double (- (of_int 1 * 2 powi (- 1074)))"
    by (intro is_double_minus is_doubleI [of _ 1 "- 1074"]) simp_all
  then have "js_le (round64 (val areaHa / val maxArea)) (Fin (- (of_int 1 * 2 powi (- 1074))))"
    using assms(3) by (intro round64_le) simp_all
  then have "sqrt64 (div64 areaHa maxArea) = NaN"
    unfolding d by (rule sqrt64_negative) simp
  then show ?thesis
    using t assms(1) by (simp add: radiusFor_def radius_NaN)
qed

theorem radiusFor_negative_area_witness:
  "radiusFor (Fin (- 1)) (Fin 1) = NaN \<and> radiusFor (Fin 0) (Fin 1) = Fin 6
   \<and> \<not> js_le (radiusFor (Fin (- 1)) (Fin 1)) (radiusFor (Fin 0) (Fin 1))"
proof -
  have "radiusFor (Fin (- 1)) (Fin 1) = NaN"
    by (rule radiusFor_negative_area) simp_all
  moreover have "radiusFor (Fin 0) (Fin 1) = Fin 6"
    by (simp add: radiusFor_def truthy_def div64_Fin Math_min_def Math_max_def mul64_def add64_def
        js_lt_def zero_of_def)
  ultimately show ?thesis
    by (simp add: js_le_def)
qed

section \<open>Properties of the numeric coercion\<close>

lemmas parse_defs = StringToNumber_def trim_def is_ws_def radix_literal_def decimal_literal_def
  unsigned_decimal_def exponent_part_def signed_integer_def digits_value_def digit_of_def
  is_digit_def strip_separators_def number_or_NaN_def coerce_text_def literal_value_def Let_def


lemma round64_half_one [simp]: "round64 (1 / 2) = Fin (1 / 2)"
  using is_double_half_int [of 1] by (simp add: is_double_def)

lemma toNum_examples:
  "toNum (JStr (asc ''1,234'')) = Fin 1234"
  "toNum (JStr (asc '' 12 345.5 '')) = Fin 12345.5"
  "toNum (JStr (asc ''-5'')) = Fin (- 5)"
  "toNum (JStr (asc ''0x1F'')) = Fin 31"
  "toNum (JStr (asc ''5.'')) = Fin 5"
  "toNum (JStr (asc ''.5'')) = Fin 0.5"
  "toNum (JStr (asc ''abc'')) = NaN"
  "toNum (JStr (asc ''.'')) = NaN"
  "toNum (JStr (asc ''1e'')) = NaN"
  "toNum (JStr (asc ''-'')) = NaN"
  "toNum (JStr (asc ''Infinity'')) = NaN"
  "toNum (JStr (asc '', ,'')) = Fin 0"
  "toNum (JBool True) = NaN"
  by (simp_all add: parse_defs inf_of_def)

text \<open>A literal beyond the binary64 range reads as an infinity, which \<open>toNum\<close> turns into \<open>NaN\<close>.\<close>

lemma toNum_overflow: "toNum (JStr (asc ''1e400'')) = NaN"
proof -
  have "(2::real) ^ 1024 \<le> 10 ^ 400"
    by simp
  then have "round64 (10 ^ 400) = PInf"
    by (rule round64_overflow)
  then show ?thesis
    by (simp add: parse_defs)
qed





lemma trim_id: "s \<noteq> [] \<Longrightarrow> \<not> is_ws (hd s) \<Longrightarrow> \<not> is_ws (last s) \<Longrightarrow> trim s = s"
proof -
  assume a: "s \<noteq> []" "\<not> is_ws (hd s)" "\<not> is_ws (last s)"
  then have 1: "dropWhile is_ws s = s" by (simp add: dropWhile_eq_self_iff)
  from a have "dropWhile is_ws (rev s) = rev s" by (simp add: dropWhile_eq_self_iff hd_rev)
  with 1 show ?thesis by (simp add: trim_def)
qed




lemma exponent_none [simp]: "exponent_part [] = Some 0"
  by (simp add: exponent_part_def)







section \<open>Properties of the totals\<close>

lemma map_of_assign: "map_of (assign k v ps) = (map_of ps)(k \<mapsto> v)"
  by (induction ps) (auto simp add: fun_eq_iff)

lemma assign_values: "snd ` set (assign k v ps) \<subseteq> insert v (snd ` set ps)"
  by (induction ps) (fastforce split: if_splits)+

lemma codes_not_inherited: "k \<in> set region_codes \<Longrightarrow> k \<notin> set Object_prototype_keys \<and> k \<noteq> []"
  by (auto simp add: region_codes_def CENTROIDS_def Object_prototype_keys_def)

lemma accumulate_start: "accumulate (Fin 0) v = add64 (Fin 0) v"
  by (simp add: accumulate_def truthy_def)

lemma lookup_number: "TText \<notin> snd ` set acc \<Longrightarrow> map_of acc k = Some t \<Longrightarrow> \<exists>x. t = TNum x"
  by (cases t) (auto dest!: map_of_SomeD simp add: image_iff)

lemma aggregate_row_included:
  assumes "included r" "region r = Some k" "TText \<notin> snd ` set acc"
  shows "aggregate_row acc r =
    assign k (TNum (accumulate (case map_of acc k of Some (TNum t) \<Rightarrow> t | _ \<Rightarrow> Fin 0)
                      (toNum (area_ha r)))) acc"
proof -
  from assms have k: "k \<in> set region_codes" and f: "Number_isFinite (toNum (area_ha r))"
    by (simp_all add: included_def)
  note ni = codes_not_inherited [OF k]
  show ?thesis
  proof (cases "map_of acc k")
    case None
    then show ?thesis
      using k f ni assms(2)
      by (simp add: aggregate_row_def in_CENTROIDS_def Let_def accumulate_start)
  next
    case (Some t)
    with lookup_number [OF assms(3)] obtain x where x: "t = TNum x" by blast
    show ?thesis
      using k f ni Some assms(2)
      by (simp add: aggregate_row_def in_CENTROIDS_def Let_def x)
  qed
qed

lemma aggregate_row_skipped:
  assumes "\<not> included r" "case region r of None \<Rightarrow> True | Some k \<Rightarrow> k \<notin> set Object_prototype_keys"
  shows "aggregate_row acc r = acc"
  using assms
  by (auto simp add: aggregate_row_def included_def in_CENTROIDS_def Let_def split: option.splits)

lemma region_areas_Cons:
  "region_areas k (r # rows) =
     (if included r \<and> region r = Some k then toNum (area_ha r) # region_areas k rows
      else region_areas k rows)"
  by (simp add: region_areas_def)

lemma aggregate_lookup_acc:
  assumes "TText \<notin> snd ` set acc" "parsed_regions rows"
  shows "TText \<notin> snd ` set (foldl aggregate_row acc rows) \<and>
    map_of (foldl aggregate_row acc rows) k =
      (case map_of acc k of
         Some t \<Rightarrow> Some (TNum (foldl accumulate (case t of TNum x \<Rightarrow> x | TText \<Rightarrow> NaN)
                                  (region_areas k rows)))
       | None \<Rightarrow> if \<exists>r\<in>set rows. included r \<and> region r = Some k
                 then Some (TNum (running_total (region_areas k rows))) else None)"
  using assms
proof (induction rows arbitrary: acc)
  case Nil
  then show ?case
    using lookup_number [OF Nil(1), of k]
    by (auto simp add: region_areas_def split: option.splits)
next
  case (Cons r rows)
  from Cons.prems(2) have p: "parsed_regions rows"
    and pr: "case region r of None \<Rightarrow> True | Some k \<Rightarrow> k \<notin> set Object_prototype_keys"
    by (simp_all add: parsed_regions_def)
  show ?case
  proof (cases "included r")
    case False
    then have s: "aggregate_row acc r = acc" using pr by (rule aggregate_row_skipped)
    show ?thesis
      using Cons.IH [OF Cons.prems(1) p] False
      by (auto simp add: s region_areas_Cons split: option.splits)
  next
    case True
    then obtain k' where k': "region r = Some k'" by (auto simp add: included_def split: option.splits)
    let ?x = "accumulate (case map_of acc k' of Some (TNum t) \<Rightarrow> t | _ \<Rightarrow> Fin 0) (toNum (area_ha r))"
    have s: "aggregate_row acc r = assign k' (TNum ?x) acc"
      using True k' Cons.prems(1) by (rule aggregate_row_included)
    have n: "TText \<notin> snd ` set (aggregate_row acc r)"
      unfolding s using Cons.prems(1) assign_values [of k' "TNum ?x" acc] by auto
    show ?thesis
    proof (cases "k = k'")
      case False
      then show ?thesis
        using Cons.IH [OF n p] True k'
        by (auto simp add: s map_of_assign region_areas_Cons split: option.splits)
    next
      case same: True
      show ?thesis
      proof (cases "map_of acc k'")
        case None
        then show ?thesis
          using Cons.IH [OF n p] True k' same
          by (simp add: s map_of_assign region_areas_Cons running_total_def)
      next
        case (Some t)
        with lookup_number [OF Cons.prems(1)] obtain x where x: "t = TNum x" by blast
        show ?thesis
          using Cons.IH [OF n p] True k' same Some
          by (simp add: s map_of_assign region_areas_Cons x)
      qed
    qed
  qed
qed

lemma aggregate_lookup:
  assumes "parsed_regions rows"
  shows "map_of (aggregateByProvince rows) k =
      (if \<exists>r\<in>set rows. included r \<and> region r = Some k
       then Some (TNum (running_total (region_areas k rows))) else None)"
  using aggregate_lookup_acc [of "[]" rows k] assms
  by (simp add: aggregateByProvince_def)

lemma foldl_skip:
  "(\<And>acc r. r \<in> set rows \<Longrightarrow> \<not> P r \<Longrightarrow> f acc r = acc) \<Longrightarrow>
     foldl f acc rows = foldl f acc (filter P rows)"
  by (induction rows arbitrary: acc) simp_all

lemma parsed_regions_row:
  "parsed_regions rows \<Longrightarrow> r \<in> set rows \<Longrightarrow>
     (case region r of None \<Rightarrow> True | Some k \<Rightarrow> k \<notin> set Object_prototype_keys)"
  by (simp add: parsed_regions_def list_all_iff)

lemma aggregate_filter:
  assumes "parsed_regions rows"
  shows "aggregateByProvince rows = aggregateByProvince (filter included rows)"
  unfolding aggregateByProvince_def
  by (rule foldl_skip) (use assms in \<open>simp add: aggregate_row_skipped parsed_regions_row\<close>)

subsection \<open>Totals of areas that are not negative\<close>

lemma accumulate_nonneg:
  assumes "js_le (Fin 0) t" "Number_isFinite v" "0 \<le> val v"
  shows "js_le (Fin 0) (accumulate t v)"
proof -
  define a where "a = (if truthy t then t else Fin 0)"
  have a: "js_le (Fin 0) a"
    using assms(1) by (simp add: a_def js_le_def)
  show ?thesis
  proof (cases "Number_isFinite a")
    case False
    then have "a = PInf"
      using a by (cases a) (simp_all add: js_le_def)
    then show ?thesis
      using assms(2) by (cases v) (simp_all add: accumulate_def a_def [symmetric] add64_def js_le_def)
  next
    case True
    then have va: "0 \<le> val a"
      using a by (cases a) (simp_all add: js_le_def)
    have e: "add64 a v = (if val a + val v = 0 then zero_of (a = NZero \<and> v = NZero)
                          else round64 (val a + val v))"
      using True assms(2) by (cases a; cases v) (simp_all add: add64_def)
    show ?thesis
    proof (cases "val a + val v = 0")
      case True
      then show ?thesis
        by (simp add: accumulate_def a_def [symmetric] e js_le_def)
    next
      case False
      have "js_le (Fin 0) (round64 (val a + val v))"
        using va assms(3) by (intro round64_ge) simp_all
      then show ?thesis
        using False by (simp add: accumulate_def a_def [symmetric] e)
    qed
  qed
qed

lemma running_nonneg:
  assumes "js_le (Fin 0) t" "\<forall>v\<in>set vs. Number_isFinite v \<and> 0 \<le> val v"
  shows "js_le (Fin 0) (foldl accumulate t vs)"
  using assms
proof (induction vs arbitrary: t)
  case Nil
  then show ?case by simp
next
  case (Cons v vs)
  have "js_le (Fin 0) (accumulate t v)"
    using Cons.prems by (intro accumulate_nonneg) simp_all
  then show ?case
    using Cons.IH [of "accumulate t v"] Cons.prems(2) by simp
qed

text \<open>
  Claim C9, as amended. For the rows of a parsed table in which every area that takes
  part is non-negative, every total of \<open>aggregateByProvince\<close> is a number that is not
  negative.
\<close>

theorem totals_nonnegative:
  assumes "parsed_regions rows"
    and "\<forall>r\<in>set rows. included r \<longrightarrow> 0 \<le> val (toNum (area_ha r))"
  shows "\<forall>k t. map_of (aggregateByProvince rows) k = Some t \<longrightarrow>
           (\<exists>x. t = TNum x \<and> js_le (Fin 0) x)"
proof (intro allI impI)
  fix k t assume l: "map_of (aggregateByProvince rows) k = Some t"
  have "\<forall>v\<in>set (region_areas k rows). Number_isFinite v \<and> 0 \<le> val v"
    using assms(2) by (auto simp add: region_areas_def included_def)
  then have "js_le (Fin 0) (running_total (region_areas k rows))"
    unfolding running_total_def by (intro running_nonneg) (simp_all add: js_le_def)
  then show "\<exists>x. t = TNum x \<and> js_le (Fin 0) x"
    using l by (auto simp add: aggregate_lookup [OF assms(1)] split: if_splits)
qed

theorem totals_nonnegative_witness:
  "map_of (aggregateByProvince
     [\<lparr>region = Some (asc ''QC''), area_ha = JStr (asc ''12.5''), year = JStr (asc ''2020'')\<rparr>])
     (asc ''QC'') = Some (TNum (Fin 12.5))
   \<and> js_le (Fin 0) (Fin 12.5)"
proof -
  let ?rows = "[\<lparr>region = Some (asc ''QC''), area_ha = JStr (asc ''12.5''), year = JStr (asc ''2020'')\<rparr>]"
  have p: "parsed_regions ?rows"
    by (simp add: parsed_regions_def Object_prototype_keys_def)
  have a: "\<forall>r\<in>set ?rows. included r \<longrightarrow> 0 \<le> val (toNum (area_ha r))" by (simp add: parse_defs)
  have v: "aggregateByProvince ?rows = [(asc ''QC'', TNum (Fin 12.5))]"
    by (simp add: aggregateByProvince_def aggregate_row_def in_CENTROIDS_def region_codes_def
        CENTROIDS_def parse_defs add64_Fin Let_def Object_prototype_keys_def)
  from totals_nonnegative [OF p a] v show ?thesis by (simp add: js_le_def)
qed

text \<open>
  Claim C9 as stated fails on a negative area, which \<open>toNum\<close> accepts as finite and
  the loop adds as it is.
\<close>

theorem negative_area_counterexample:
  "aggregateByProvince
     [\<lparr>region = Some (asc ''AB''), area_ha = JStr (asc ''-5''), year = JStr (asc ''2020'')\<rparr>]
     = [(asc ''AB'', TNum (Fin (- 5)))]
   \<and> \<not> js_le (Fin 0) (Fin (- 5))"
  by (simp add: aggregateByProvince_def aggregate_row_def in_CENTROIDS_def region_codes_def
      CENTROIDS_def parse_defs add64_Fin Let_def js_le_def Object_prototype_keys_def)

subsection \<open>Totals of whole numbers\<close>

lemma is_whole_iff: "is_whole x \<longleftrightarrow> (\<exists>n. x = of_int n)"
  unfolding is_whole_def by (metis of_int_floor_cancel floor_of_int)

lemma is_whole_add: "is_whole x \<Longrightarrow> is_whole y \<Longrightarrow> is_whole (x + y)"
  unfolding is_whole_iff by (metis of_int_add)

lemma is_whole_zero [simp]: "is_whole 0"
  by (simp add: is_whole_def)

lemma whole_is_double:
  assumes "is_whole x" "\<bar>x\<bar> \<le> 2 ^ 53"
  shows "round64 x = Fin x"
proof -
  obtain n where n: "x = of_int n"
    using assms(1) is_whole_iff by blast
  have "\<bar>of_int n :: real\<bar> \<le> of_int (2 ^ 53)"
    using assms(2) n by simp
  then have "\<bar>n\<bar> \<le> 2 ^ 53"
    by (simp only: of_int_abs [symmetric] of_int_le_iff)
  then have "is_double (of_int n)"
    by (rule is_double_int)
  then show ?thesis
    by (simp add: n is_double_def)
qed

lemma add64_exact:
  assumes "is_whole a" "is_whole b" "\<bar>a\<bar> + \<bar>b\<bar> \<le> 2 ^ 53"
  shows "add64 (Fin a) (Fin b) = Fin (a + b)"
proof -
  have "is_whole (a + b)" "\<bar>a + b\<bar> \<le> 2 ^ 53"
    using assms by (simp_all add: is_whole_add)
  then have "round64 (a + b) = Fin (a + b)"
    by (rule whole_is_double)
  then show ?thesis
    by (simp add: add64_Fin)
qed

lemma accumulate_exact:
  assumes "is_whole a" "Number_isFinite v" "is_whole (val v)" "\<bar>a\<bar> + \<bar>val v\<bar> \<le> 2 ^ 53"
  shows "accumulate (Fin a) v = Fin (a + val v)"
proof -
  have t: "(if truthy (Fin a) then Fin a else Fin 0) = Fin a"
    by (simp add: truthy_def)
  show ?thesis
  proof (cases v)
    case (Fin b)
    then show ?thesis
      using assms add64_exact [of a b] by (simp add: accumulate_def t)
  next
    case NZero
    have "round64 a = Fin a"
      using assms(1,4) by (intro whole_is_double) simp_all
    then show ?thesis
      using NZero by (simp add: accumulate_def t add64_def zero_of_def)
  qed (use assms(2) in simp_all)
qed

lemma whole_total_iff: "whole_total t \<longleftrightarrow> (\<exists>x. t = TNum (Fin x) \<and> is_whole x)"
  by (cases t rule: whole_total.cases) simp_all

lemma numeric_assign: "numeric ps \<Longrightarrow> is_whole x \<Longrightarrow> numeric (assign k (TNum (Fin x)) ps)"
  by (induction ps) (auto simp add: numeric_def)

lemma abs_sum_nonneg: "0 \<le> abs_sum ps"
  unfolding abs_sum_def by (rule sum_list_nonneg) auto

lemma numeric_lookup:
  "numeric ps \<Longrightarrow> map_of ps k = Some t \<Longrightarrow> \<exists>x. t = TNum (Fin x) \<and> is_whole x \<and> \<bar>x\<bar> \<le> abs_sum ps"
proof (induction ps)
  case Nil
  then show ?case by simp
next
  case (Cons p ps)
  have n: "numeric ps" "whole_total (snd p)"
    using Cons.prems(1) by (simp_all add: numeric_def)
  have s: "abs_sum (p # ps) = \<bar>total_val (snd p)\<bar> + abs_sum ps"
    by (simp add: abs_sum_def)
  show ?case
  proof (cases "k = fst p")
    case True
    then have "t = snd p"
      using Cons.prems(2) by (cases p) simp
    then show ?thesis
      using n(2) abs_sum_nonneg [of ps] by (auto simp add: whole_total_iff s total_val_def)
  next
    case False
    then have "map_of ps k = Some t"
      using Cons.prems(2) by (cases p) simp
    then show ?thesis
      using Cons.IH [OF n(1)] s by fastforce
  qed
qed

lemma numeric_numbers: "numeric ps \<Longrightarrow> TText \<notin> snd ` set ps"
  by (auto simp add: numeric_def list_all_iff)

lemma assign_sum:
  "values_sum (assign k v ps) =
     values_sum ps - (case map_of ps k of Some t \<Rightarrow> total_val t | None \<Rightarrow> 0) + total_val v"
  by (induction ps) (auto simp add: values_sum_def)

lemma assign_abs_sum:
  "abs_sum (assign k v ps) =
     abs_sum ps - (case map_of ps k of Some t \<Rightarrow> \<bar>total_val t\<bar> | None \<Rightarrow> 0) + \<bar>total_val v\<bar>"
  by (induction ps) (auto simp add: abs_sum_def)

lemma area_sum_Cons:
  "area_sum k (r # rows) =
     (if included r \<and> region r = Some k then val (toNum (area_ha r)) else 0) + area_sum k rows"
  by (simp add: area_sum_def)

lemma total_area_Cons:
  "total_area (r # rows) = (if included r then val (toNum (area_ha r)) else 0) + total_area rows"
  by (simp add: total_area_def)

lemma abs_area_Cons:
  "abs_area (r # rows) = (if included r then \<bar>val (toNum (area_ha r))\<bar> else 0) + abs_area rows"
  by (simp add: abs_area_def)

lemma abs_area_nonneg: "0 \<le> abs_area rows"
  unfolding abs_area_def by (rule sum_list_nonneg) auto

lemma aggregate_row_exact:
  assumes "included r" "region r = Some k" "numeric acc" "is_whole (val (toNum (area_ha r)))"
    and "abs_sum acc + \<bar>val (toNum (area_ha r))\<bar> \<le> 2 ^ 53"
  shows "aggregate_row acc r =
    assign k (TNum (Fin ((case map_of acc k of Some t \<Rightarrow> total_val t | None \<Rightarrow> 0)
                          + val (toNum (area_ha r))))) acc"
proof -
  let ?v = "toNum (area_ha r)"
  have f: "Number_isFinite ?v"
    using assms(1) by (simp add: included_def)
  have s: "aggregate_row acc r =
      assign k (TNum (accumulate (case map_of acc k of Some (TNum t) \<Rightarrow> t | _ \<Rightarrow> Fin 0) ?v)) acc"
    using assms(1,2) numeric_numbers [OF assms(3)] by (rule aggregate_row_included)
  show ?thesis
  proof (cases "map_of acc k")
    case None
    have "accumulate (Fin 0) ?v = Fin (0 + val ?v)"
      using f assms(4,5) abs_sum_nonneg [of acc] by (intro accumulate_exact) simp_all
    then show ?thesis
      by (simp add: s None)
  next
    case (Some t)
    with numeric_lookup [OF assms(3)] obtain x where x: "t = TNum (Fin x)" "is_whole x" "\<bar>x\<bar> \<le> abs_sum acc"
      by blast
    have "accumulate (Fin x) ?v = Fin (x + val ?v)"
      using f assms(4,5) x(2,3) by (intro accumulate_exact) simp_all
    then show ?thesis
      by (simp add: s Some x(1) total_val_def)
  qed
qed

lemma aggregate_exact_acc:
  assumes "numeric acc" "parsed_regions rows" "whole_areas rows"
    and "abs_sum acc + abs_area rows \<le> 2 ^ 53"
  shows "numeric (foldl aggregate_row acc rows)
    \<and> values_sum (foldl aggregate_row acc rows) = values_sum acc + total_area rows
    \<and> abs_sum (foldl aggregate_row acc rows) \<le> abs_sum acc + abs_area rows
    \<and> map_of (foldl aggregate_row acc rows) k =
      (case map_of acc k of
         Some t \<Rightarrow> Some (TNum (Fin (total_val t + area_sum k rows)))
       | None \<Rightarrow> if \<exists>r\<in>set rows. included r \<and> region r = Some k
                 then Some (TNum (Fin (area_sum k rows))) else None)"
  using assms
proof (induction rows arbitrary: acc)
  case Nil
  then show ?case
    using numeric_lookup [OF Nil(1), of k]
    by (auto simp add: area_sum_def total_area_def abs_area_def total_val_def split: option.splits)
next
  case (Cons r rows)
  from Cons.prems(2) have p: "parsed_regions rows"
    and pr: "case region r of None \<Rightarrow> True | Some k \<Rightarrow> k \<notin> set Object_prototype_keys"
    by (simp_all add: parsed_regions_def)
  from Cons.prems(3) have w: "whole_areas rows"
    and wr: "included r \<longrightarrow> is_whole (val (toNum (area_ha r)))"
    by (simp_all add: whole_areas_def)
  show ?case
  proof (cases "included r")
    case False
    then have s: "aggregate_row acc r = acc" using pr by (rule aggregate_row_skipped)
    have b: "abs_sum acc + abs_area rows \<le> 2 ^ 53"
      using Cons.prems(4) False by (simp add: abs_area_Cons)
    show ?thesis
      using Cons.IH [OF Cons.prems(1) p w b] False
      by (auto simp add: s area_sum_Cons total_area_Cons abs_area_Cons split: option.splits)
  next
    case True
    then obtain k' where k': "region r = Some k'" by (auto simp add: included_def split: option.splits)
    let ?v = "val (toNum (area_ha r))"
    let ?x0 = "case map_of acc k' of Some t \<Rightarrow> total_val t | None \<Rightarrow> 0"
    have b0: "abs_sum acc + \<bar>?v\<bar> + abs_area rows \<le> 2 ^ 53"
      using Cons.prems(4) True by (simp add: abs_area_Cons)
    then have b1: "abs_sum acc + \<bar>?v\<bar> \<le> 2 ^ 53"
      using abs_area_nonneg [of rows] by linarith
    have s: "aggregate_row acc r = assign k' (TNum (Fin (?x0 + ?v))) acc"
      using True k' Cons.prems(1) wr b1 by (intro aggregate_row_exact) simp_all
    have wx: "is_whole ?x0"
      using numeric_lookup [OF Cons.prems(1), of k'] by (auto simp add: total_val_def split: option.splits)
    have n: "numeric (aggregate_row acc r)"
      unfolding s using Cons.prems(1) wx wr True by (intro numeric_assign is_whole_add) simp_all
    have vs: "values_sum (aggregate_row acc r) = values_sum acc + ?v"
      unfolding s assign_sum by (simp add: total_val_def split: option.splits)
    have as: "abs_sum (aggregate_row acc r) \<le> abs_sum acc + \<bar>?v\<bar>"
    proof (cases "map_of acc k'")
      case None
      then show ?thesis
        unfolding s assign_abs_sum by (simp add: total_val_def)
    next
      case (Some t)
      have "\<bar>total_val t + ?v\<bar> \<le> \<bar>total_val t\<bar> + \<bar>?v\<bar>"
        by (rule abs_triangle_ineq)
      then show ?thesis
        unfolding s assign_abs_sum by (simp add: Some total_val_def)
    qed
    have b: "abs_sum (aggregate_row acc r) + abs_area rows \<le> 2 ^ 53"
      using as b0 by linarith
    show ?thesis
      using Cons.IH [OF n p w b] True k' vs as
      by (auto simp add: s map_of_assign area_sum_Cons total_area_Cons abs_area_Cons total_val_def
          split: option.splits)
  qed
qed

lemma numeric_Nil [simp]: "numeric []" "abs_sum [] = 0" "values_sum [] = 0"
  by (simp_all add: numeric_def abs_sum_def values_sum_def)

lemma aggregate_exact:
  assumes "parsed_regions rows" "whole_areas rows" "abs_area rows \<le> 2 ^ 53"
  shows "map_of (aggregateByProvince rows) k =
      (if \<exists>r\<in>set rows. included r \<and> region r = Some k
       then Some (TNum (Fin (area_sum k rows))) else None)"
  using aggregate_exact_acc [of "[]" rows k] assms
  by (simp add: aggregateByProvince_def)

lemma grand_total_acc:
  "numeric acc \<Longrightarrow> is_whole a \<Longrightarrow> \<bar>a\<bar> + abs_sum acc \<le> 2 ^ 53 \<Longrightarrow>
     foldl add_total (TNum (Fin a)) (map snd acc) = TNum (Fin (a + values_sum acc))"
proof (induction acc arbitrary: a)
  case Nil
  then show ?case by simp
next
  case (Cons p acc)
  then obtain x where x: "snd p = TNum (Fin x)" "is_whole x" and n: "numeric acc"
    by (auto simp add: numeric_def whole_total_iff)
  have s: "abs_sum (p # acc) = \<bar>x\<bar> + abs_sum acc" "values_sum (p # acc) = x + values_sum acc"
    by (simp_all add: abs_sum_def values_sum_def x(1) total_val_def)
  have "\<bar>a\<bar> + \<bar>x\<bar> \<le> 2 ^ 53"
    using Cons.prems(3) abs_sum_nonneg [of acc] unfolding s by linarith
  then have e: "add64 (Fin a) (Fin x) = Fin (a + x)"
    using Cons.prems(2) x(2) by (intro add64_exact)
  have "\<bar>a + x\<bar> + abs_sum acc \<le> 2 ^ 53"
    using Cons.prems(3) unfolding s by linarith
  then have "foldl add_total (TNum (Fin (a + x))) (map snd acc) = TNum (Fin (a + x + values_sum acc))"
    using n Cons.prems(2) x(2) by (intro Cons.IH is_whole_add)
  then show ?case
    by (simp add: x(1) e s add.assoc)
qed

lemma aggregate_grand_total:
  assumes "parsed_regions rows" "whole_areas rows" "abs_area rows \<le> 2 ^ 53"
  shows "grand_total (aggregateByProvince rows) = TNum (Fin (total_area rows))"
proof -
  have a: "numeric (foldl aggregate_row [] rows)"
    "values_sum (foldl aggregate_row [] rows) = total_area rows"
    "abs_sum (foldl aggregate_row [] rows) \<le> abs_area rows"
    using aggregate_exact_acc [of "[]" rows "[]"] assms by simp_all
  have "foldl add_total (TNum (Fin 0)) (map snd (aggregateByProvince rows))
          = TNum (Fin (0 + values_sum (aggregateByProvince rows)))"
    using a assms(3) unfolding aggregateByProvince_def by (intro grand_total_acc) simp_all
  then show ?thesis
    using a by (simp add: grand_total_def aggregateByProvince_def)
qed

lemma area_sum_mset: "mset rows' = mset rows \<Longrightarrow> area_sum k rows' = area_sum k rows"
proof -
  assume m: "mset rows' = mset rows"
  let ?f = "\<lambda>r. val (toNum (area_ha r))" and ?P = "\<lambda>r. included r \<and> region r = Some k"
  have "\<And>xs. sum_list (map ?f (filter ?P xs)) = sum_mset (image_mset ?f (filter_mset ?P (mset xs)))"
    by (simp only: sum_mset_sum_list [symmetric] mset_map mset_filter)
  then show ?thesis by (simp add: area_sum_def m)
qed

lemma total_area_mset: "mset rows' = mset rows \<Longrightarrow> total_area rows' = total_area rows"
proof -
  assume m: "mset rows' = mset rows"
  let ?f = "\<lambda>r. val (toNum (area_ha r))"
  have "\<And>xs. sum_list (map ?f (filter included xs)) = sum_mset (image_mset ?f (filter_mset included (mset xs)))"
    by (simp only: sum_mset_sum_list [symmetric] mset_map mset_filter)
  then show ?thesis by (simp add: total_area_def m)
qed

lemma abs_area_mset: "mset rows' = mset rows \<Longrightarrow> abs_area rows' = abs_area rows"
proof -
  assume m: "mset rows' = mset rows"
  let ?f = "\<lambda>r. \<bar>val (toNum (area_ha r))\<bar>"
  have "\<And>xs. sum_list (map ?f (filter included xs)) = sum_mset (image_mset ?f (filter_mset included (mset xs)))"
    by (simp only: sum_mset_sum_list [symmetric] mset_map mset_filter)
  then show ?thesis by (simp add: abs_area_def m)
qed

lemma parsed_regions_mset: "mset rows' = mset rows \<Longrightarrow> parsed_regions rows \<Longrightarrow> parsed_regions rows'"
  using mset_eq_setD [of rows' rows] by (simp add: parsed_regions_def list_all_iff)

lemma whole_areas_mset: "mset rows' = mset rows \<Longrightarrow> whole_areas rows \<Longrightarrow> whole_areas rows'"
  using mset_eq_setD [of rows' rows] by (simp add: whole_areas_def list_all_iff)

text \<open>
  Claim C2, as amended. For the rows of a parsed table, \<open>aggregateByProvince\<close> gives the
  same totals as on the rows that take part alone (region among the thirteen codes,
  finite area: the others contribute nothing); a region has a total exactly when a row
  of it takes part, and the total is the sum of the areas of those rows taken from left
  to right, each addition rounded to binary64. When the areas that take part are whole
  numbers whose absolute values sum to at most \<open>2 ^ 53\<close>, no addition rounds: every total
  is the arithmetic sum of the areas of its region, the grand total is the arithmetic
  sum over all rows that take part, and the totals and the grand total are the same for
  every permutation of the rows.
\<close>

theorem aggregateByProvince_sums:
  assumes "parsed_regions rows"
  shows "aggregateByProvince rows = aggregateByProvince (filter included rows)
       \<and> (\<forall>k. map_of (aggregateByProvince rows) k =
              (if \<exists>r\<in>set rows. included r \<and> region r = Some k
               then Some (TNum (running_total (region_areas k rows))) else None))
       \<and> (whole_areas rows \<and> abs_area rows \<le> 2 ^ 53 \<longrightarrow>
            (\<forall>k. map_of (aggregateByProvince rows) k =
              (if \<exists>r\<in>set rows. included r \<and> region r = Some k
               then Some (TNum (Fin (area_sum k rows))) else None))
          \<and> grand_total (aggregateByProvince rows) = TNum (Fin (total_area rows))
          \<and> (\<forall>rows'. mset rows' = mset rows \<longrightarrow>
                map_of (aggregateByProvince rows') = map_of (aggregateByProvince rows)
              \<and> grand_total (aggregateByProvince rows') = grand_total (aggregateByProvince rows)))"
proof (intro conjI allI impI)
  show "aggregateByProvince rows = aggregateByProvince (filter included rows)"
    using assms by (rule aggregate_filter)
  show "map_of (aggregateByProvince rows) k =
          (if \<exists>r\<in>set rows. included r \<and> region r = Some k
           then Some (TNum (running_total (region_areas k rows))) else None)" for k
    using assms by (rule aggregate_lookup)
next
  fix k assume w: "whole_areas rows \<and> abs_area rows \<le> 2 ^ 53"
  show "map_of (aggregateByProvince rows) k =
          (if \<exists>r\<in>set rows. included r \<and> region r = Some k
           then Some (TNum (Fin (area_sum k rows))) else None)"
    using assms w by (intro aggregate_exact) simp_all
next
  assume w: "whole_areas rows \<and> abs_area rows \<le> 2 ^ 53"
  show "grand_total (aggregateByProvince rows) = TNum (Fin (total_area rows))"
    using assms w by (intro aggregate_grand_total) simp_all
next
  fix rows' assume w: "whole_areas rows \<and> abs_area rows \<le> 2 ^ 53" and m: "mset rows' = mset rows"
  have p: "parsed_regions rows'" using m assms by (rule parsed_regions_mset)
  have w': "whole_areas rows'" using m w by (intro whole_areas_mset [of rows' rows]) simp_all
  have a': "abs_area rows' \<le> 2 ^ 53" using w by (simp add: abs_area_mset [OF m])
  have s: "set rows' = set rows" using m by (rule mset_eq_setD)
  show "map_of (aggregateByProvince rows') = map_of (aggregateByProvince rows)"
    using w by (intro ext)
      (simp add: aggregate_exact [OF p w' a'] aggregate_exact [OF assms] s area_sum_mset [OF m])
  show "grand_total (aggregateByProvince rows') = grand_total (aggregateByProvince rows)"
    using w by (simp add: aggregate_grand_total [OF p w' a'] aggregate_grand_total [OF assms]
        total_area_mset [OF m])
qed


theorem aggregateByProvince_sums_witness:
  "parsed_regions
     [\<lparr>region = Some (asc ''AB''), area_ha = JStr (asc ''1,234''), year = JStr (asc ''2020'')\<rparr>,
      \<lparr>region = Some (asc ''ALBERTA''), area_ha = JStr (asc ''5''), year = JStr (asc ''2020'')\<rparr>,
      \<lparr>region = Some (asc ''AB''), area_ha = JStr (asc ''n/a''), year = JStr (asc ''2021'')\<rparr>,
      \<lparr>region = Some (asc ''AB''), area_ha = JNum (Fin 6), year = JNum (Fin 2022)\<rparr>]
   \<and> map_of (aggregateByProvince
     [\<lparr>region = Some (asc ''AB''), area_ha = JStr (asc ''1,234''), year = JStr (asc ''2020'')\<rparr>,
      \<lparr>region = Some (asc ''ALBERTA''), area_ha = JStr (asc ''5''), year = JStr (asc ''2020'')\<rparr>,
      \<lparr>region = Some (asc ''AB''), area_ha = JStr (asc ''n/a''), year = JStr (asc ''2021'')\<rparr>,
      \<lparr>region = Some (asc ''AB''), area_ha = JNum (Fin 6), year = JNum (Fin 2022)\<rparr>]) (asc ''AB'')
     = Some (TNum (Fin 1240))"
proof -
  let ?rows = "[\<lparr>region = Some (asc ''AB''), area_ha = JStr (asc ''1,234''), year = JStr (asc ''2020'')\<rparr>,
      \<lparr>region = Some (asc ''ALBERTA''), area_ha = JStr (asc ''5''), year = JStr (asc ''2020'')\<rparr>,
      \<lparr>region = Some (asc ''AB''), area_ha = JStr (asc ''n/a''), year = JStr (asc ''2021'')\<rparr>,
      \<lparr>region = Some (asc ''AB''), area_ha = JNum (Fin 6), year = JNum (Fin 2022)\<rparr>]"
  have p: "parsed_regions ?rows"
    by (simp add: parsed_regions_def Object_prototype_keys_def)
  have c: "asc ''AB'' \<in> set region_codes" "asc ''ALBERTA'' \<notin> set region_codes"
    by (simp_all add: region_codes_def CENTROIDS_def)
  have w: "whole_areas ?rows \<and> abs_area ?rows \<le> 2 ^ 53"
    using c by (simp add: whole_areas_def abs_area_def included_def is_whole_def parse_defs)
  from aggregateByProvince_sums [OF p] w
  have "map_of (aggregateByProvince ?rows) (asc ''AB'') =
           (if \<exists>r\<in>set ?rows. included r \<and> region r = Some (asc ''AB'')
            then Some (TNum (Fin (area_sum (asc ''AB'') ?rows))) else None)"
    by blast
  also have "\<dots> = Some (TNum (Fin 1240))"
    using c by (simp add: included_def area_sum_def parse_defs)
  finally show ?thesis using p by blast
qed

text \<open>
  Claim C2 as stated fails once an addition rounds. The three areas \<open>10 ^ 17\<close>, \<open>1\<close> and
  \<open>- 10 ^ 17\<close> of one region have the arithmetic sum 1; in this order the total is 0,
  because \<open>10 ^ 17 + 1\<close> rounds to \<open>10 ^ 17\<close>, and with the last two exchanged it is 1.
\<close>

lemma round64_large:
  "round64 100000000000000000 = Fin 100000000000000000"
  "round64 100000000000000001 = Fin 100000000000000000"
proof -
  have "is_double (of_int 762939453125 * 2 powi 17)"
    by (rule is_doubleI [of _ 762939453125 17]) simp_all
  then show "round64 100000000000000000 = Fin 100000000000000000"
    by (simp add: is_double_def)
  have "round64 100000000000000001 = Fin (of_int 6250000000000000 * 2 powi (56 - 52))"
    by (rule round64_near) simp_all
  then show "round64 100000000000000001 = Fin 100000000000000000"
    by simp
qed

theorem aggregate_order_counterexample:
  "mset [\<lparr>region = Some (asc ''AB''), area_ha = JNum (Fin 100000000000000000), year = JNum (Fin 2020)\<rparr>,
         \<lparr>region = Some (asc ''AB''), area_ha = JNum (Fin (- 100000000000000000)), year = JNum (Fin 2020)\<rparr>,
         \<lparr>region = Some (asc ''AB''), area_ha = JNum (Fin 1), year = JNum (Fin 2020)\<rparr>]
   = mset [\<lparr>region = Some (asc ''AB''), area_ha = JNum (Fin 100000000000000000), year = JNum (Fin 2020)\<rparr>,
         \<lparr>region = Some (asc ''AB''), area_ha = JNum (Fin 1), year = JNum (Fin 2020)\<rparr>,
         \<lparr>region = Some (asc ''AB''), area_ha = JNum (Fin (- 100000000000000000)), year = JNum (Fin 2020)\<rparr>]
   \<and> aggregateByProvince
        [\<lparr>region = Some (asc ''AB''), area_ha = JNum (Fin 100000000000000000), year = JNum (Fin 2020)\<rparr>,
         \<lparr>region = Some (asc ''AB''), area_ha = JNum (Fin 1), year = JNum (Fin 2020)\<rparr>,
         \<lparr>region = Some (asc ''AB''), area_ha = JNum (Fin (- 100000000000000000)), year = JNum (Fin 2020)\<rparr>]
      = [(asc ''AB'', TNum (Fin 0))]
   \<and> aggregateByProvince
        [\<lparr>region = Some (asc ''AB''), area_ha = JNum (Fin 100000000000000000), year = JNum (Fin 2020)\<rparr>,
         \<lparr>region = Some (asc ''AB''), area_ha = JNum (Fin (- 100000000000000000)), year = JNum (Fin 2020)\<rparr>,
         \<lparr>region = Some (asc ''AB''), area_ha = JNum (Fin 1), year = JNum (Fin 2020)\<rparr>]
      = [(asc ''AB'', TNum (Fin 1))]
   \<and> area_sum (asc ''AB'')
        [\<lparr>region = Some (asc ''AB''), area_ha = JNum (Fin 100000000000000000), year = JNum (Fin 2020)\<rparr>,
         \<lparr>region = Some (asc ''AB''), area_ha = JNum (Fin 1), year = JNum (Fin 2020)\<rparr>,
         \<lparr>region = Some (asc ''AB''), area_ha = JNum (Fin (- 100000000000000000)), year = JNum (Fin 2020)\<rparr>]
      = 1"
  by (simp add: aggregateByProvince_def aggregate_row_def in_CENTROIDS_def region_codes_def
      CENTROIDS_def number_or_NaN_def accumulate_def truthy_def add64_Fin round64_large Let_def
      Object_prototype_keys_def area_sum_def included_def)

section \<open>Properties of the region names\<close>

lemmas name_defs = normName_def normalize_NFD_def decompose_def latin1_decompositions_def
  is_diacritic_def toLowerCase_def lower_unit_def toUpperCase_def upper_unit_def trim_def is_ws_def

lemma table_all:
  "list_all (\<lambda>(name, code). map_of NAME_TO_CODE name = Some code \<and> 2 < length name
      \<and> toUpperCase code = code \<and> code \<in> set region_codes) NAME_TO_CODE"
  by (simp add: NAME_TO_CODE_def toUpperCase_def upper_unit_def region_codes_def CENTROIDS_def)

lemma table_facts:
  assumes "(name, code) \<in> set NAME_TO_CODE"
  shows "map_of NAME_TO_CODE name = Some code" "2 < length name" "toUpperCase code = code"
    "code \<in> set region_codes"
  using table_all assms unfolding list_all_iff by blast+

lemma marks_diacritic:
  "list_all (\<lambda>(c, b, m). is_diacritic m) latin1_decompositions"
  by (simp add: latin1_decompositions_def is_diacritic_def)

lemma decompose_short: "length (filter (\<lambda>c. \<not> is_diacritic c) (decompose c)) \<le> 1"
proof (cases "map_of latin1_decompositions c")
  case None
  then show ?thesis by (simp add: decompose_def is_diacritic_def)
next
  case (Some p)
  obtain b m where p: "p = (b, m)" by (cases p)
  from Some have "(c, b, m) \<in> set latin1_decompositions" unfolding p by (rule map_of_SomeD)
  with marks_diacritic have "is_diacritic m" unfolding list_all_iff by blast
  then show ?thesis by (simp add: decompose_def Some p)
qed

lemma stripped_short:
  "length (filter (\<lambda>c. \<not> is_diacritic c) (normalize_NFD s)) \<le> length s"
proof (induction s)
  case Nil
  then show ?case by (simp add: normalize_NFD_def)
next
  case (Cons c s)
  then show ?case using decompose_short [of c] by (simp add: normalize_NFD_def)
qed

lemma trim_short: "length (trim s) \<le> length s"
proof -
  have "length (dropWhile is_ws (rev (dropWhile is_ws s))) \<le> length (rev (dropWhile is_ws s))"
    by (rule length_dropWhile_le)
  also have "\<dots> \<le> length s" by (simp add: length_dropWhile_le)
  finally show ?thesis by (simp add: trim_def)
qed

lemma normName_short: "length (normName s) \<le> length s"
proof -
  have "length (normName s) \<le> length (toLowerCase (filter (\<lambda>c. \<not> is_diacritic c) (normalize_NFD s)))"
    unfolding normName_def by (rule trim_short)
  also have "\<dots> \<le> length s" using stripped_short [of s] by (simp add: toLowerCase_def)
  finally show ?thesis .
qed

lemma names_plain:
  "list_all (\<lambda>(name, code). name \<noteq> [] \<and> \<not> is_ws (hd name) \<and> \<not> is_ws (last name)
      \<and> list_all (\<lambda>d. (97 \<le> d \<and> d \<le> 122) \<or> d = 32 \<or> d = 38) name) NAME_TO_CODE"
  by (simp add: NAME_TO_CODE_def is_ws_def)

lemma no_decomposition_below: "c < 0xC0 \<Longrightarrow> map_of latin1_decompositions c = None"
  by (simp add: latin1_decompositions_def)

lemma lower_unit_plain:
  assumes "(97 \<le> lower_unit c \<and> lower_unit c \<le> 122) \<or> lower_unit c = 32 \<or> lower_unit c = 38"
  shows "decompose c = [c] \<and> \<not> is_diacritic c"
proof -
  from assms have c: "c < 0x80" "c \<noteq> 0x5E" "c \<noteq> 0x60"
    by (auto simp add: lower_unit_def split: if_splits)
  then have "\<not> is_diacritic c" by (auto simp add: is_diacritic_def)
  moreover have "decompose c = [c]"
    using c(1) by (simp add: decompose_def no_decomposition_below)
  ultimately show ?thesis by simp
qed

lemma plain_text:
  "list_all (\<lambda>c. decompose c = [c] \<and> \<not> is_diacritic c) s \<Longrightarrow>
     filter (\<lambda>c. \<not> is_diacritic c) (normalize_NFD s) = s"
  by (induction s) (simp_all add: normalize_NFD_def)

lemma normName_of_case_variant:
  assumes "(name, code) \<in> set NAME_TO_CODE" and "toLowerCase t = name"
  shows "normName t = name"
proof -
  from names_plain assms(1)
  have n: "name \<noteq> []" "\<not> is_ws (hd name)" "\<not> is_ws (last name)"
    and l: "list_all (\<lambda>d. (97 \<le> d \<and> d \<le> 122) \<or> d = 32 \<or> d = 38) name"
    unfolding list_all_iff [of _ NAME_TO_CODE] by blast+
  from l assms(2) have "list_all (\<lambda>c. (97 \<le> lower_unit c \<and> lower_unit c \<le> 122)
      \<or> lower_unit c = 32 \<or> lower_unit c = 38) t"
    by (auto simp add: toLowerCase_def list_all_iff)
  then have "list_all (\<lambda>c. decompose c = [c] \<and> \<not> is_diacritic c) t"
    unfolding list_all_iff using lower_unit_plain by blast
  then have "filter (\<lambda>c. \<not> is_diacritic c) (normalize_NFD t) = t" by (rule plain_text)
  then show ?thesis using n by (simp add: normName_def assms(2) trim_id)
qed

text \<open>
  Claim C6. Every name of the table \<open>NAME_TO_CODE\<close> (the thirteen provinces and
  territories, the second spelling of Newfoundland and Labrador, and \<open>pei\<close>) resolves to
  its two-letter code, which is one of the thirteen region codes, from every cell that
  \<open>normName\<close> brings to that name, that is, whatever the letter case, the diacritics and
  the white space around it; in particular from every cell that differs from the name in
  letter case only.
\<close>

theorem resolveRegion_names:
  assumes "(name, code) \<in> set NAME_TO_CODE"
  shows "code \<in> set region_codes
       \<and> (normName (trim s) = name \<longrightarrow> resolveRegion (Some s) = Inr code)
       \<and> (toLowerCase (trim s) = name \<longrightarrow> resolveRegion (Some s) = Inr code)"
proof -
  note t = table_facts [OF assms]
  have r: "resolveRegion (Some s) = Inr code" if h: "normName (trim s) = name"
  proof -
    have "length name \<le> length (trim s)" using normName_short [of "trim s"] h by simp
    with t(2) have "2 < length (trim s)" by simp
    then show ?thesis using t by (simp add: resolveRegion_def Let_def h)
  qed
  moreover have "normName (trim s) = name" if "toLowerCase (trim s) = name"
    using assms that by (rule normName_of_case_variant)
  ultimately show ?thesis using t(4) by blast
qed

theorem resolveRegion_names_witness:
  "resolveRegion (Some [0x51, 0x75, 0xE9, 0x62, 0x65, 0x63]) = Inr (asc ''QC'')
   \<and> resolveRegion (Some (asc ''PEI'')) = Inr (asc ''PE'')
   \<and> resolveRegion (Some (asc '' NEWFOUNDLAND & Labrador '')) = Inr (asc ''NL'')"
proof -
  have 1: "resolveRegion (Some [0x51, 0x75, 0xE9, 0x62, 0x65, 0x63]) = Inr (asc ''QC'')"
    using resolveRegion_names [of "asc ''quebec''" "asc ''QC''" "[0x51, 0x75, 0xE9, 0x62, 0x65, 0x63]"]
    by (simp add: NAME_TO_CODE_def name_defs)
  have 2: "resolveRegion (Some (asc ''PEI'')) = Inr (asc ''PE'')"
    using resolveRegion_names [of "asc ''pei''" "asc ''PE''" "asc ''PEI''"]
    by (simp add: NAME_TO_CODE_def name_defs)
  have 3: "resolveRegion (Some (asc '' NEWFOUNDLAND & Labrador '')) = Inr (asc ''NL'')"
    using resolveRegion_names [of "asc ''newfoundland & labrador''" "asc ''NL''"
        "asc '' NEWFOUNDLAND & Labrador ''"]
    by (simp add: NAME_TO_CODE_def name_defs)
  from 1 2 3 show ?thesis by blast
qed

lemma resolveRegion_examples:
  "resolveRegion (Some (asc ''ab'')) = Inr (asc ''AB'')"
  "resolveRegion (Some (asc ''Atlantis'')) = Inr (asc ''ATLANTIS'')"
  "resolveRegion (Some (asc ''constructor'')) = Inl TypeError"
  "resolveRegion None = Inr []"
  by (simp_all add: resolveRegion_def NAME_TO_CODE_def name_defs Object_prototype_keys_def)

end
